theory Spec2Isabelle
  imports Main "HOL-Library.Sublist" "HOL-Library.AList"
begin

section \<open>JavaScript strings, numbers and objects\<close>

text \<open>
  Strings are lists of characters. The source's strings are sequences of UTF-16 code
  units; the model covers the code units below 256, where every literal the converters
  compare against lives. The text of a stream is modelled apart, as code units in their
  full range, with the decoding of the chunks that arrive as a \<open>Buffer\<close>.
  \<open>toLowerCase\<close> maps the capital letters of that range, \<open>A\<close> to \<open>Z\<close> and the accented
  capitals from 192 to 222, to their small letters.
\<close>

definition toLowerCase_char :: "char \<Rightarrow> char" where
  "toLowerCase_char c =
     (if (65 \<le> (of_char c :: nat) \<and> (of_char c :: nat) \<le> 90)
         \<or> (192 \<le> (of_char c :: nat) \<and> (of_char c :: nat) \<le> 222
             \<and> (of_char c :: nat) \<noteq> 215)
      then char_of ((of_char c :: nat) + 32) else c)"

definition toLowerCase :: "string \<Rightarrow> string" where
  "toLowerCase s = map toLowerCase_char s"

text \<open>Truthiness of an optional string: \<open>undefined\<close> and \<open>''''\<close> are falsy.\<close>

definition truthy :: "string option \<Rightarrow> bool" where
  "truthy s = (case s of None \<Rightarrow> False | Some v \<Rightarrow> v \<noteq> [])"

text \<open>\<open>a || b\<close> on optional strings.\<close>

definition or_else :: "string option \<Rightarrow> string \<Rightarrow> string" where
  "or_else s d = (case s of None \<Rightarrow> d | Some v \<Rightarrow> if v \<noteq> [] then v else d)"

definition startsWith :: "'a list \<Rightarrow> 'a list \<Rightarrow> bool" where
  "startsWith s pat = prefix pat s"

text \<open>
  \<open>s.indexOf(pat)\<close> and \<open>s.lastIndexOf(pat)\<close>; the source's \<open>-1\<close> is \<open>None\<close> in the
  helpers and \<open>-1\<close> in \<open>lastIndexOf\<close>.
\<close>

fun indexOf :: "'a list \<Rightarrow> 'a list \<Rightarrow> nat option" where
  "indexOf [] pat = (if pat = [] then Some 0 else None)"
| "indexOf (c # cs) pat =
     (if prefix pat (c # cs) then Some 0 else map_option Suc (indexOf cs pat))"

fun lastIndexOf_from :: "string \<Rightarrow> string \<Rightarrow> nat option" where
  "lastIndexOf_from pat [] = (if pat = [] then Some 0 else None)"
| "lastIndexOf_from pat (c # cs) =
     (case lastIndexOf_from pat cs of
        Some i \<Rightarrow> Some (Suc i)
      | None \<Rightarrow> if prefix pat (c # cs) then Some 0 else None)"

definition lastIndexOf :: "string \<Rightarrow> string \<Rightarrow> int" where
  "lastIndexOf s pat = (case lastIndexOf_from pat s of Some i \<Rightarrow> int i | None \<Rightarrow> - 1)"

text \<open>\<open>s.slice(0, e)\<close>: a negative end counts from the end of the string.\<close>

definition slice0 :: "string \<Rightarrow> int \<Rightarrow> string" where
  "slice0 s e = (if e < 0 then take (nat (int (length s) + e)) s else take (nat e) s)"

text \<open>
  The decimal rendering of a non-negative integer, as a template literal prints a counter
  or a clock reading.
\<close>

definition digit_char :: "nat \<Rightarrow> char" where
  "digit_char d = char_of (48 + d)"

fun dec :: "nat \<Rightarrow> string" where
  "dec n = (if n < 10 then [digit_char n] else dec (n div 10) @ [digit_char (n mod 10)])"

declare dec.simps [simp del]

text \<open>
  A plain object with string values, as \<open>{}\<close> creates it: its own properties in insertion
  order, over the properties every object inherits from \<open>Object.prototype\<close>. Writing the
  key \<open>__proto__\<close> with a string runs the inherited setter, which ignores a value that is
  neither an object nor \<open>null\<close>: no own property appears. Reading a key that is not an own
  property finds the inherited one, a function or an object and never a string.
\<close>

type_synonym js_object = "(string \<times> string) list"

definition Object_prototype_keys :: "string list" where
  "Object_prototype_keys =
     [''constructor'', ''__defineGetter__'', ''__defineSetter__'', ''hasOwnProperty'',
      ''__lookupGetter__'', ''__lookupSetter__'', ''isPrototypeOf'',
      ''propertyIsEnumerable'', ''toString'', ''valueOf'', ''__proto__'',
      ''toLocaleString'']"

datatype js_value = Str string | Inherited string

definition obj_set :: "js_object \<Rightarrow> string \<Rightarrow> string \<Rightarrow> js_object" where
  "obj_set obj k v = (if k = ''__proto__'' then obj else AList.update k v obj)"

definition obj_get :: "js_object \<Rightarrow> string \<Rightarrow> js_value option" where
  "obj_get obj k =
     (case map_of obj k of
        Some v \<Rightarrow> Some (Str v)
      | None \<Rightarrow> if k \<in> set Object_prototype_keys then Some (Inherited k) else None)"

section \<open>The frame reassembler\<close>

text \<open>
  The text of a stream is a list of UTF-16 code units, as numbers; \<open>units\<close> turns a
  literal into such a text. The white space \<open>trim()\<close> removes is the white space and the
  line terminators of the language. Then \<open>trim\<close> itself, \<open>str.replace(/\r\n/g, '\n')\<close>
  and \<open>split('\n')\<close>.
\<close>

type_synonym jstring = "int list"

definition units :: "string \<Rightarrow> jstring" where
  "units s = map of_char s"

definition LF :: int where
  "LF = 10"

definition CR :: int where
  "CR = 13"

definition is_space :: "int \<Rightarrow> bool" where
  "is_space c =
     (c \<in> {9, 10, 11, 12, 13, 32, 160, 5760, 8192, 8193, 8194, 8195, 8196, 8197, 8198,
            8199, 8200, 8201, 8202, 8232, 8233, 8239, 8287, 12288, 65279})"

definition trim :: "jstring \<Rightarrow> jstring" where
  "trim s = rev (dropWhile is_space (rev (dropWhile is_space s)))"

fun normalize_crlf :: "jstring \<Rightarrow> jstring" where
  "normalize_crlf [] = []"
| "normalize_crlf [c] = [c]"
| "normalize_crlf (c # d # cs) =
     (if c = CR \<and> d = LF then LF # normalize_crlf cs else c # normalize_crlf (d # cs))"

fun split_lines :: "jstring \<Rightarrow> jstring list" where
  "split_lines [] = [[]]"
| "split_lines (c # cs) =
     (if c = LF then [] # split_lines cs
      else (case split_lines cs of [] \<Rightarrow> [[c]] | l # ls \<Rightarrow> (c # l) # ls))"

text \<open>
  A chunk reaches a hook as a string or as a \<open>Buffer\<close> of bytes, which the hook turns
  into a string by \<open>chunk.toString()\<close>, each chunk by itself. \<open>toString\<close> is the UTF-8
  decoder of the platform: a well-formed sequence of bytes gives its code point, as one
  code unit or as a surrogate pair, and every maximal ill-formed run of bytes, also a
  sequence that the end of the buffer cuts short, gives the replacement character
  \<open>U+FFFD\<close>. \<open>utf8_decode needed cp lo hi\<close> is the decoder in the middle of a sequence
  that still needs \<open>needed\<close> bytes, the next of them between \<open>lo\<close> and \<open>hi\<close>.
\<close>

definition utf16 :: "int \<Rightarrow> jstring" where
  "utf16 cp =
     (if cp < 65536 then [cp]
      else [55296 + (cp - 65536) div 1024, 56320 + (cp - 65536) mod 1024])"

fun utf8_decode :: "nat \<Rightarrow> int \<Rightarrow> int \<Rightarrow> int \<Rightarrow> int list \<Rightarrow> jstring" where
  "utf8_decode needed cp lo hi [] = (if needed \<noteq> 0 then [65533] else [])"
| "utf8_decode needed cp lo hi (b # bs) =
     (if needed \<noteq> 0 \<and> lo \<le> b \<and> b \<le> hi then
        (if needed = 1 then utf16 (cp * 64 + b mod 64) @ utf8_decode 0 0 128 191 bs
         else utf8_decode (needed - 1) (cp * 64 + b mod 64) 128 191 bs)
      else
        (if needed \<noteq> 0 then [65533] else []) @
        (if b < 128 then b # utf8_decode 0 0 128 191 bs
         else if 194 \<le> b \<and> b \<le> 223 then utf8_decode 1 (b mod 32) 128 191 bs
         else if 224 \<le> b \<and> b \<le> 239 then
           utf8_decode 2 (b mod 16) (if b = 224 then 160 else 128)
             (if b = 237 then 159 else 191) bs
         else if 240 \<le> b \<and> b \<le> 244 then
           utf8_decode 3 (b mod 8) (if b = 240 then 144 else 128)
             (if b = 244 then 143 else 191) bs
         else 65533 # utf8_decode 0 0 128 191 bs))"

definition toString :: "int list \<Rightarrow> jstring" where
  "toString bytes = utf8_decode 0 0 128 191 bytes"

datatype raw_chunk = Text jstring | Bytes "int list"

text \<open>\<open>typeof chunk === 'string' ? chunk : chunk.toString()\<close>.\<close>

definition chunk_text :: "raw_chunk \<Rightarrow> jstring" where
  "chunk_text chunk = (case chunk of Text s \<Rightarrow> s | Bytes bytes \<Rightarrow> toString bytes)"

text \<open>
  The state of a stream hook: the text buffer and the conversion state. \<open>'st\<close> is whatever
  the handling of a payload reads and writes: the converter's state and the clock.
\<close>

record 'st framed =
  buffer :: jstring
  conv :: 'st

text \<open>
  The patched \<open>res.write\<close> of the router's OpenAI branch. Its loop cuts the buffer at the
  first blank line, skips an event of white space, handles every line of the event, and
  goes on with the rest. The handling of a payload sits in a \<open>try\<close> as a whole: \<open>convert
  jsonStr st\<close> stands for the body of the \<open>try\<close> together with its \<open>catch\<close>, and gives the
  strings handed to the original \<open>write\<close>, in order, and the conversion state after it.
  \<open>codex_write\<close> returns what one call hands to the original \<open>write\<close>, the chunk itself
  when the status is an error status, and the state after the call.
\<close>

type_synonym 'st codex_handler = "jstring \<Rightarrow> 'st \<Rightarrow> jstring list \<times> 'st"

definition codex_line ::
  "'st codex_handler \<Rightarrow> jstring \<Rightarrow> 'st \<Rightarrow> jstring list \<times> 'st" where
  "codex_line convert line st =
     (if startsWith line (units ''data: '') then
        (let jsonStr = drop 6 line
         in if jsonStr = [] \<or> jsonStr = units ''[DONE]'' then ([], st)
            else convert jsonStr st)
      else ([], st))"

fun lines_loop ::
  "'st codex_handler \<Rightarrow> jstring list \<Rightarrow> 'st \<Rightarrow> jstring list \<times> 'st" where
  "lines_loop convert [] st = ([], st)"
| "lines_loop convert (line # lines) st =
     (let (out1, st1) = codex_line convert line st;
          (out2, st2) = lines_loop convert lines st1
      in (out1 @ out2, st2))"

function events_loop ::
  "'st codex_handler \<Rightarrow> jstring \<Rightarrow> 'st \<Rightarrow> jstring list \<times> jstring \<times> 'st" where
  "events_loop convert buf st =
     (case indexOf buf [LF, LF] of
        None \<Rightarrow> ([], buf, st)
      | Some idx \<Rightarrow>
          (let event = take idx buf;
               buf' = drop (idx + 2) buf
           in if trim event = [] then events_loop convert buf' st
              else
                (let (out1, st1) = lines_loop convert (split_lines event) st;
                     (out2, rest, st2) = events_loop convert buf' st1
                 in (out1 @ out2, rest, st2))))"
  by pat_completeness auto

definition codex_write ::
  "nat \<Rightarrow> 'st codex_handler \<Rightarrow> raw_chunk \<Rightarrow> 'st framed \<Rightarrow> raw_chunk list \<times> 'st framed" where
  "codex_write statusCode convert chunk state =
     (if statusCode \<ge> 400 then ([chunk], state)
      else
        (let str = normalize_crlf (chunk_text chunk);
             (writes, rest, st') = events_loop convert (buffer state @ str) (conv state)
         in (map Text writes, \<lparr>buffer = rest, conv = st'\<rparr>)))"

text \<open>The hook called on the chunks of a stream, in order.\<close>

fun feed :: "(raw_chunk \<Rightarrow> 's \<Rightarrow> 'w list \<times> 's) \<Rightarrow> raw_chunk list \<Rightarrow> 's \<Rightarrow> 'w list \<times> 's" where
  "feed hook [] state = ([], state)"
| "feed hook (chunk # chunks) state =
     (let (w1, state1) = hook chunk state;
          (w2, state2) = feed hook chunks state1
      in (w1 @ w2, state2))"

text \<open>
  \<open>GeminiToOpenAIConverter.convertStreamChunk\<close>. Here only \<open>JSON.parse\<close> sits in a
  \<open>try\<close>: the test of the \<open>error\<close> field and \<open>_convertGeminiChunkToOpenAI\<close> can throw.
  \<open>convert jsonStr st\<close> stands for what the loop body does with a payload from
  \<open>JSON.parse\<close> on: \<open>Inr\<close> of the strings it appends to \<open>output\<close> (the payload itself when
  it does not parse or carries an error, the converted chunks otherwise) and the
  conversion state after it, or \<open>Inl\<close> of the exception thrown and the conversion state
  at the throw. An exception leaves every loop and the function: the \<open>output\<close> gathered
  so far is lost, and the buffer keeps what followed the event being handled.
\<close>

type_synonym 'st gemini_handler =
  "jstring \<Rightarrow> 'st \<Rightarrow> string \<times> 'st + jstring list \<times> 'st"

definition gemini_line ::
  "'st gemini_handler \<Rightarrow> jstring \<Rightarrow> 'st
     \<Rightarrow> string \<times> 'st + jstring list \<times> 'st" where
  "gemini_line convert line st =
     (if \<not> startsWith line (units ''data: '') then Inr ([], st)
      else
        (let jsonStr = trim (drop 6 line)
         in if jsonStr = [] then Inr ([], st)
            else if jsonStr = units ''[DONE]'' then Inr ([], st)
            else convert jsonStr st))"

fun gemini_lines_loop ::
  "'st gemini_handler \<Rightarrow> jstring list \<Rightarrow> 'st
     \<Rightarrow> string \<times> 'st + jstring list \<times> 'st" where
  "gemini_lines_loop convert [] st = Inr ([], st)"
| "gemini_lines_loop convert (line # lines) st =
     (case gemini_line convert line st of
        Inl thrown \<Rightarrow> Inl thrown
      | Inr (out1, st1) \<Rightarrow>
          (case gemini_lines_loop convert lines st1 of
             Inl thrown \<Rightarrow> Inl thrown
           | Inr (out2, st2) \<Rightarrow> Inr (out1 @ out2, st2)))"

function gemini_events_loop ::
  "'st gemini_handler \<Rightarrow> jstring \<Rightarrow> 'st
     \<Rightarrow> string \<times> jstring \<times> 'st + jstring list \<times> jstring \<times> 'st" where
  "gemini_events_loop convert buf st =
     (case indexOf buf [LF, LF] of
        None \<Rightarrow> Inr ([], buf, st)
      | Some idx \<Rightarrow>
          (let event = take idx buf;
               buf' = drop (idx + 2) buf
           in if trim event = [] then gemini_events_loop convert buf' st
              else
                (case gemini_lines_loop convert (split_lines event) st of
                   Inl (e, st1) \<Rightarrow> Inl (e, buf', st1)
                 | Inr (out1, st1) \<Rightarrow>
                     (case gemini_events_loop convert buf' st1 of
                        Inl thrown \<Rightarrow> Inl thrown
                      | Inr (out2, rest, st2) \<Rightarrow> Inr (out1 @ out2, rest, st2)))))"
  by pat_completeness auto

text \<open>
  What \<open>convertStreamChunk\<close> returns: the text of the chunk, handed through as a
  heartbeat (\<open>return str\<close>), or the converted output (\<open>return output || null\<close>). The
  caller writes either; \<open>converted\<close> is the converted text in it.
\<close>

datatype returned = Passed jstring | Output "jstring option"

definition converted :: "returned \<Rightarrow> jstring" where
  "converted r = (case r of Passed s \<Rightarrow> [] | Output None \<Rightarrow> [] | Output (Some s) \<Rightarrow> s)"

definition gemini_convertStreamChunk ::
  "'st gemini_handler \<Rightarrow> raw_chunk \<Rightarrow> 'st framed
     \<Rightarrow> string \<times> 'st framed + returned \<times> 'st framed" where
  "gemini_convertStreamChunk convert rawChunk state =
     (let str = normalize_crlf (chunk_text rawChunk)
      in if trim str = [] \<and> buffer state = [] then Inr (Passed str, state)
         else
           (case gemini_events_loop convert (buffer state @ str) (conv state) of
              Inl (e, rest, st') \<Rightarrow> Inl (e, \<lparr>buffer = rest, conv = st'\<rparr>)
            | Inr (pieces, rest, st') \<Rightarrow>
                (let output = concat pieces
                 in Inr (Output (if output = [] then None else Some output),
                         \<lparr>buffer = rest, conv = st'\<rparr>))))"

text \<open>
  \<open>convertStreamChunk\<close> called on the chunks of a stream, in order, until a call throws:
  the values returned so far, and the state after the last call or the exception.
\<close>

fun gemini_feed ::
  "'st gemini_handler \<Rightarrow> raw_chunk list \<Rightarrow> 'st framed
     \<Rightarrow> returned list \<times> (string \<times> 'st framed + 'st framed)" where
  "gemini_feed convert [] state = ([], Inr state)"
| "gemini_feed convert (chunk # chunks) state =
     (case gemini_convertStreamChunk convert chunk state of
        Inl thrown \<Rightarrow> ([], Inl thrown)
      | Inr (r, state1) \<Rightarrow>
          (case gemini_feed convert chunks state1 of (rs, result) \<Rightarrow> (r # rs, result)))"

text \<open>
  The stream as one chunk: the bytes of a stream of buffers joined, and otherwise the
  strings joined, a buffer among them as the string it decodes to.
\<close>

fun all_bytes :: "raw_chunk list \<Rightarrow> int list list option" where
  "all_bytes [] = Some []"
| "all_bytes (Bytes bytes # chunks) = map_option ((#) bytes) (all_bytes chunks)"
| "all_bytes (Text s # chunks) = None"

definition whole :: "raw_chunk list \<Rightarrow> raw_chunk" where
  "whole chunks =
     (case all_bytes chunks of
        Some bss \<Rightarrow> Bytes (concat bss)
      | None \<Rightarrow> Text (concat (map chunk_text chunks)))"

text \<open>
  The ways a stream can be cut that the reassembly is sensitive to. A chunk boundary
  changes what the bytes decode to, as it does inside a character of several bytes. A
  carriage return and the line feed after it fall into different chunks. A chunk of
  white space that is not all line feeds arrives while the buffer of \<open>convertStreamChunk\<close>
  is empty, and is handed through as a heartbeat instead of being buffered.
\<close>

definition decodes_differently :: "raw_chunk list \<Rightarrow> bool" where
  "decodes_differently chunks = (chunk_text (whole chunks) \<noteq> concat (map chunk_text chunks))"

fun splits_crlf :: "jstring list \<Rightarrow> bool" where
  "splits_crlf [] = False"
| "splits_crlf (c # cs) =
     ((c \<noteq> [] \<and> last c = CR \<and> concat cs \<noteq> [] \<and> hd (concat cs) = LF) \<or> splits_crlf cs)"

fun passes_blank ::
  "'st gemini_handler \<Rightarrow> raw_chunk list \<Rightarrow> 'st framed \<Rightarrow> bool" where
  "passes_blank convert [] state = False"
| "passes_blank convert (c # cs) state =
     ((trim (normalize_crlf (chunk_text c)) = [] \<and> buffer state = []
         \<and> filter (\<lambda>x. x \<noteq> LF) (normalize_crlf (chunk_text c)) \<noteq> [])
      \<or> (case gemini_convertStreamChunk convert c state of
            Inl thrown \<Rightarrow> False
          | Inr (r, state1) \<Rightarrow> passes_blank convert cs state1))"

text \<open>A text without the line feeds it begins with.\<close>

definition drop_lfs :: "jstring \<Rightarrow> jstring" where
  "drop_lfs s = dropWhile (\<lambda>x. x = LF) s"

text \<open>
  What the two hooks do with a payload that is not JSON text, and with the payload
  \<open>null\<close>. \<open>JSON.parse\<close> throws on the first, and both hooks emit the payload as it
  is and leave the conversion state alone. \<open>null\<close> parses, and the test of its \<open>error\<close>
  field throws a \<open>TypeError\<close>: in the OpenAI branch the \<open>catch\<close> around it emits the
  payload as it is, in \<open>convertStreamChunk\<close> nothing catches it.
\<close>

definition emit_raw :: "jstring \<Rightarrow> 'st \<Rightarrow> jstring list \<times> 'st" where
  "emit_raw jsonStr st = ([units ''data: '' @ jsonStr @ [LF, LF]], st)"

definition emit_raw_or_throw :: "jstring \<Rightarrow> 'st \<Rightarrow> string \<times> 'st + jstring list \<times> 'st" where
  "emit_raw_or_throw jsonStr st =
     (if jsonStr = units ''null'' then Inl (''TypeError'', st) else Inr (emit_raw jsonStr st))"

text \<open>
  A sample stream of buffers: a line feed by itself, a frame with a character of two
  bytes whose blank line is cut in the middle, a frame closed by \<open>\r\n\r\n\<close>, and a line
  feed.
\<close>

definition sample_stream :: "raw_chunk list" where
  "sample_stream =
     [Bytes [10],
      Bytes (units ''data: '' @ [195, 169, 10]),
      Bytes [10],
      Bytes (units ''data: B'' @ [13, 10, 13, 10]),
      Bytes [10]]"

section \<open>Tool names (\<open>codexToOpenAI.js\<close>)\<close>

definition LIMIT :: nat where
  "LIMIT = 64"

text \<open>\<open>baseCandidate\<close> inside \<open>_buildShortNameMap\<close>.\<close>

definition baseCandidate :: "string \<Rightarrow> string" where
  "baseCandidate n =
     (if length n \<le> LIMIT then n
      else if startsWith n ''mcp__'' \<and> 0 < lastIndexOf n ''__''
      then (let cand = ''mcp__'' @ drop (nat (lastIndexOf n ''__'' + 2)) n
            in if length cand > LIMIT then take LIMIT cand else cand)
      else take LIMIT n)"

text \<open>
  \<open>makeUnique\<close> inside \<open>_buildShortNameMap\<close>. \<open>suffixed base i\<close> is the value of \<open>tmp\<close> in
  round \<open>i\<close> of the loop \<open>for (let i = 1; ; i++)\<close>; the set \<open>used\<close> is the list of its
  members.
\<close>

definition suffixed :: "string \<Rightarrow> nat \<Rightarrow> string" where
  "suffixed base i =
     (let suffix = ''_'' @ dec i;
          allowed = int LIMIT - int (length suffix)
      in (if int (length base) > allowed then slice0 base allowed else base) @ suffix)"

function makeUnique_loop :: "string list \<Rightarrow> string \<Rightarrow> nat \<Rightarrow> string" where
  "makeUnique_loop used base i =
     (let tmp = suffixed base i
      in if tmp \<notin> set used then tmp else makeUnique_loop used base (i + 1))"
  by pat_completeness auto

definition makeUnique :: "string list \<Rightarrow> string \<Rightarrow> string" where
  "makeUnique used cand =
     (if cand \<notin> set used then cand else makeUnique_loop used cand 1)"

text \<open>The loop \<open>for (const n of names)\<close> and \<open>_buildShortNameMap\<close> itself.\<close>

fun names_loop :: "string list \<Rightarrow> string list \<Rightarrow> js_object \<Rightarrow> js_object" where
  "names_loop [] used m = m"
| "names_loop (n # ns) used m =
     (let short = makeUnique used (baseCandidate n)
      in names_loop ns (List.insert short used) (obj_set m n short))"

definition buildShortNameMap :: "string list \<Rightarrow> js_object" where
  "buildShortNameMap names = names_loop names [] []"

text \<open>
  The reverse map that \<open>buildRequestFromOpenAI\<close> fills from \<open>Object.entries\<close> of the
  forward map, and \<open>_restoreToolName\<close>, which reads it with
  \<open>this._reverseToolNameMap[shortName] || shortName\<close>.
\<close>

fun entries_loop :: "(string \<times> string) list \<Rightarrow> js_object \<Rightarrow> js_object" where
  "entries_loop [] r = r"
| "entries_loop ((orig, short) # es) r =
     entries_loop es (if orig \<noteq> short then obj_set r short orig else r)"

definition buildReverseToolNameMap :: "js_object \<Rightarrow> js_object" where
  "buildReverseToolNameMap toolNameMap = entries_loop toolNameMap []"

definition restoreToolName :: "js_object \<Rightarrow> string \<Rightarrow> js_value" where
  "restoreToolName reverseToolNameMap shortName =
     (case obj_get reverseToolNameMap shortName of
        Some (Str v) \<Rightarrow> if v \<noteq> [] then Str v else Str shortName
      | Some (Inherited k) \<Rightarrow> Inherited k
      | None \<Rightarrow> Str shortName)"

text \<open>
  How a short name comes from its original: the base candidate itself, or the base
  candidate cut to make room for a suffix \<open>_n\<close>.
\<close>

definition short_of :: "string \<Rightarrow> string \<Rightarrow> bool" where
  "short_of orig short =
     (short = baseCandidate orig \<or> (\<exists>n\<ge>1. short = suffixed (baseCandidate orig) n))"

text \<open>
  What the loop over the names keeps true: every short name in the map is in \<open>used\<close>,
  fits the limit and comes from its original, and no short name is stored twice.
\<close>

definition table_inv :: "string list \<Rightarrow> js_object \<Rightarrow> bool" where
  "table_inv used m =
     ((\<forall>orig short. map_of m orig = Some short \<longrightarrow>
          short \<in> set used \<and> length short \<le> LIMIT \<and> short_of orig short)
      \<and> (\<forall>o1 o2 short. map_of m o1 = Some short \<and> map_of m o2 = Some short \<longrightarrow> o1 = o2))"

section \<open>Finish reasons\<close>

text \<open>\<open>GeminiToOpenAIConverter._mapFinishReason\<close>.\<close>

definition mapFinishReason :: "string \<Rightarrow> string" where
  "mapFinishReason geminiReason =
     (let fr = toLowerCase geminiReason in
      if fr = ''stop'' then ''stop''
      else if fr = ''max_tokens'' then ''length''
      else if fr = ''malformed_function_call'' \<or> fr = ''too_many_tool_calls''
              \<or> fr = ''unexpected_tool_call'' then ''stop''
      else if fr = ''safety'' \<or> fr = ''recitation'' \<or> fr = ''blocklist''
              \<or> fr = ''prohibited_content'' \<or> fr = ''spii'' \<or> fr = ''image_safety''
              \<or> fr = ''language'' then ''content_filter''
      else ''stop'')"

text \<open>
  The response object of the Responses API, as far as the converter reads it:
  \<open>incomplete_reason\<close> is \<open>incomplete_details?.reason\<close>, \<open>cached_tokens\<close> is
  \<open>input_tokens_details?.cached_tokens\<close>, \<open>reasoning_tokens\<close> is
  \<open>output_tokens_details?.reasoning_tokens\<close>.
\<close>

record codex_error =
  err_message :: "string option"
  err_type :: "string option"
  err_code :: "string option"

record codex_usage =
  input_tokens :: "int option"
  output_tokens :: "int option"
  usage_total_tokens :: "int option"
  cached_tokens :: "int option"
  reasoning_tokens :: "int option"

datatype created_at = Seconds int | DateString string

record codex_response =
  resp_id :: "string option"
  resp_created_at :: "created_at option"
  resp_model :: "string option"
  resp_status :: "string option"
  incomplete_reason :: "string option"
  resp_error :: "codex_error option"
  resp_usage :: "codex_usage option"

text \<open>\<open>CodexToOpenAIConverter._mapResponseStatus\<close>.\<close>

definition mapResponseStatus :: "codex_response \<Rightarrow> string" where
  "mapResponseStatus resp =
     (if \<not> truthy (resp_status resp) \<or> resp_status resp = Some ''completed'' then ''stop''
      else if resp_status resp = Some ''incomplete'' then
        (if incomplete_reason resp = Some ''max_output_tokens'' then ''length''
         else if incomplete_reason resp = Some ''content_filter'' then ''content_filter''
         else ''length'')
      else ''stop'')"

section \<open>Canonical chunks and messages\<close>

text \<open>
  The objects both converters build. A chunk's \<open>choices\<close> array always has the one
  element \<open>_makeChunk\<close> puts there; \<open>choice_index\<close>, \<open>choice_delta\<close> and \<open>finish_reason\<close>
  are the fields of \<open>choices[0]\<close>. A field that is \<open>undefined\<close> or \<open>null\<close> is \<open>None\<close>.
  The type parameter is the shape of a tool-call entry, which differs between the
  converters.
\<close>

record image_ref =
  image_type :: string
  image_index :: nat
  image_url :: string

record 'tc delta =
  role :: "string option"
  content :: "string option"
  reasoning_content :: "string option"
  tool_calls :: "'tc list option"
  images :: "image_ref list option"

definition empty_delta :: "'tc delta" where
  "empty_delta =
     \<lparr>role = None, content = None, reasoning_content = None, tool_calls = None,
      images = None\<rparr>"

record usage =
  prompt_tokens :: int
  completion_tokens :: int
  total_tokens :: int
  completion_tokens_details :: "int option"
  prompt_tokens_details :: "int option"

record 'tc chunk =
  chunk_id :: string
  chunk_object :: string
  chunk_created :: int
  chunk_model :: string
  choice_index :: int
  choice_delta :: "'tc delta"
  finish_reason :: "string option"
  chunk_usage :: "usage option"

text \<open>\<open>x || 0\<close> on an optional number.\<close>

definition num_or0 :: "int option \<Rightarrow> int" where
  "num_or0 x = (case x of None \<Rightarrow> 0 | Some v \<Rightarrow> v)"

text \<open>\<open>x > 0\<close> on an optional number, keeping the number.\<close>

definition positive :: "int option \<Rightarrow> int option" where
  "positive x = (case x of None \<Rightarrow> None | Some v \<Rightarrow> if v > 0 then Some v else None)"

section \<open>The Gemini converter (\<open>geminiToOpenAI.js\<close>)\<close>

text \<open>
  The parsed frames of the native API, as far as the converter reads them. \<open>fc_args\<close> is
  the JSON text of \<open>functionCall.args\<close> when that is truthy; \<open>content_parts\<close> is
  \<open>candidate.content?.parts\<close>. A frame may wrap its data in a \<open>response\<close> field.
\<close>

record function_call =
  fc_name :: string
  fc_args :: "string option"

record inline_blob =
  blob_data :: "string option"
  mimeType :: "string option"
  mime_type :: "string option"

record part =
  thoughtSignature :: "string option"
  part_text :: "string option"
  thought :: bool
  functionCall :: "function_call option"
  inlineData :: "inline_blob option"
  inline_data :: "inline_blob option"

record candidate =
  cand_index :: "int option"
  content_parts :: "part list option"
  finishReason :: "string option"

record usage_metadata =
  promptTokenCount :: "int option"
  candidatesTokenCount :: "int option"
  thoughtsTokenCount :: "int option"
  totalTokenCount :: "int option"
  cachedContentTokenCount :: "int option"

record gemini_data =
  responseId :: "string option"
  modelVersion :: "string option"
  createTime :: "string option"
  candidates :: "candidate list option"
  usageMetadata :: "usage_metadata option"

record gemini_frame = gemini_data +
  response :: "gemini_data option"

text \<open>\<open>geminiData.response || geminiData\<close>.\<close>

definition unwrap :: "gemini_frame \<Rightarrow> gemini_data" where
  "unwrap geminiData =
     (case response geminiData of Some d \<Rightarrow> d | None \<Rightarrow> gemini_data.truncate geminiData)"

text \<open>
  The conversion state of \<open>createStreamState\<close>, without the text buffer, which the frame
  reassembler below owns. \<open>now\<close> is a reading of \<open>Date.now()\<close>; one call of a converter
  function sees one reading.
\<close>

record gemini_state =
  st_id :: string
  st_created :: int
  st_model :: "string option"
  functionIndex :: nat
  candidatesWithFunctionCalls :: "int set"
  roleSent :: bool

definition gemini_createStreamState :: "nat \<Rightarrow> gemini_state" where
  "gemini_createStreamState now =
     \<lparr>st_id = ''chatcmpl-'' @ dec now, st_created = int (now div 1000), st_model = None,
      functionIndex = 0, candidatesWithFunctionCalls = {}, roleSent = False\<rparr>"

record gemini_tool_call =
  gtc_index :: nat
  gtc_id :: string
  gtc_type :: string
  gtc_name :: string
  gtc_arguments :: string

definition gemini_makeChunk :: "gemini_state \<Rightarrow> string \<Rightarrow> gemini_tool_call chunk" where
  "gemini_makeChunk st model =
     \<lparr>chunk_id = st_id st, chunk_object = ''chat.completion.chunk'',
      chunk_created = st_created st, chunk_model = or_else (st_model st) model,
      choice_index = 0, choice_delta = empty_delta, finish_reason = None,
      chunk_usage = None\<rparr>"

definition injectRole ::
  "gemini_state \<Rightarrow> gemini_tool_call delta \<Rightarrow> gemini_tool_call delta \<times> gemini_state" where
  "injectRole st d =
     (if \<not> roleSent st then (d\<lparr>role := Some ''assistant''\<rparr>, st\<lparr>roleSent := True\<rparr>)
      else (d, st))"

text \<open>
  \<open>_parseCreateTime\<close>. \<open>date_ms\<close> stands for \<open>new Date(s).getTime()\<close>, \<open>None\<close> for \<open>NaN\<close>.
\<close>

definition parseCreateTime :: "(string \<Rightarrow> int option) \<Rightarrow> nat \<Rightarrow> string option \<Rightarrow> int" where
  "parseCreateTime date_ms now createTime' =
     (case createTime' of
        None \<Rightarrow> int (now div 1000)
      | Some s \<Rightarrow>
          if s = [] then int (now div 1000)
          else (case date_ms s of None \<Rightarrow> int (now div 1000) | Some ms \<Rightarrow> ms div 1000))"

text \<open>\<open>GeminiToOpenAIConverter._mapUsage\<close>.\<close>

definition gemini_mapUsage :: "usage_metadata option \<Rightarrow> usage option" where
  "gemini_mapUsage meta =
     (case meta of
        None \<Rightarrow> None
      | Some m \<Rightarrow>
          (let completionTokens =
                 num_or0 (candidatesTokenCount m) + num_or0 (thoughtsTokenCount m)
           in Some \<lparr>prompt_tokens = num_or0 (promptTokenCount m),
                    completion_tokens = completionTokens,
                    total_tokens = num_or0 (totalTokenCount m),
                    completion_tokens_details = positive (thoughtsTokenCount m),
                    prompt_tokens_details = positive (cachedContentTokenCount m)\<rparr>))"

text \<open>
  A part that carries only a continuation signature: the first test of both part loops.
\<close>

definition signature_only :: "part \<Rightarrow> bool" where
  "signature_only p =
     (truthy (thoughtSignature p) \<and> \<not> truthy (part_text p) \<and> functionCall p = None
      \<and> inlineData p = None \<and> inline_data p = None)"

text \<open>\<open>part.inlineData || part.inline_data\<close> and the data URL built from it.\<close>

definition inline_of :: "part \<Rightarrow> inline_blob option" where
  "inline_of p = (case inlineData p of Some b \<Rightarrow> Some b | None \<Rightarrow> inline_data p)"

definition data_url :: "inline_blob \<Rightarrow> string \<Rightarrow> string" where
  "data_url b imgData =
     ''data:'' @ or_else (mimeType b) (or_else (mime_type b) ''image/png'')
       @ '';base64,'' @ imgData"

text \<open>
  \<open>_convertGeminiChunkToOpenAI\<close>: the body of the loop over the parts of a candidate,
  that loop, the body of the loop over the candidates, that loop, and the function.
\<close>

definition convert_part ::
  "nat \<Rightarrow> string \<Rightarrow> int \<Rightarrow> part \<Rightarrow> gemini_state
     \<Rightarrow> gemini_tool_call chunk list \<times> gemini_state" where
  "convert_part now model candidateIndex p st =
     (if signature_only p then ([], st)
      else
        (let chunk = (gemini_makeChunk st model)\<lparr>choice_index := candidateIndex\<rparr>
         in case functionCall p of
              Some fc \<Rightarrow>
                (let st1 = st\<lparr>candidatesWithFunctionCalls :=
                                insert candidateIndex (candidatesWithFunctionCalls st)\<rparr>;
                     d = empty_delta\<lparr>tool_calls := Some
                           [\<lparr>gtc_index = functionIndex st1,
                             gtc_id = fc_name fc @ ''-'' @ dec now @ ''-''
                                        @ dec (functionIndex st1),
                             gtc_type = ''function'',
                             gtc_name = fc_name fc,
                             gtc_arguments = or_else (fc_args fc) ''{}''\<rparr>]\<rparr>;
                     (d', st2) = injectRole st1 d;
                     st3 = st2\<lparr>functionIndex := functionIndex st2 + 1\<rparr>
                 in ([chunk\<lparr>choice_delta := d'\<rparr>], st3))
            | None \<Rightarrow>
                (case part_text p of
                   Some t \<Rightarrow>
                     (let d = (if thought p then empty_delta\<lparr>reasoning_content := Some t\<rparr>
                               else empty_delta\<lparr>content := Some t\<rparr>);
                          (d', st1) = injectRole st d
                      in ([chunk\<lparr>choice_delta := d'\<rparr>], st1))
                 | None \<Rightarrow>
                     (case inline_of p of
                        Some b \<Rightarrow>
                          (if truthy (blob_data b) then
                             (let d = empty_delta\<lparr>images := Some
                                        [\<lparr>image_type = ''image_url'', image_index = 0,
                                          image_url = data_url b (or_else (blob_data b) [])\<rparr>]\<rparr>;
                                  (d', st1) = injectRole st d
                              in ([chunk\<lparr>choice_delta := d'\<rparr>], st1))
                           else ([], st))
                      | None \<Rightarrow> ([], st)))))"

fun convert_parts ::
  "nat \<Rightarrow> string \<Rightarrow> int \<Rightarrow> part list \<Rightarrow> gemini_state
     \<Rightarrow> gemini_tool_call chunk list \<times> gemini_state" where
  "convert_parts now model candidateIndex [] st = ([], st)"
| "convert_parts now model candidateIndex (p # ps) st =
     (let (r1, st1) = convert_part now model candidateIndex p st;
          (r2, st2) = convert_parts now model candidateIndex ps st1
      in (r1 @ r2, st2))"

definition convert_candidate ::
  "nat \<Rightarrow> string \<Rightarrow> usage_metadata option \<Rightarrow> nat \<Rightarrow> candidate \<Rightarrow> gemini_state
     \<Rightarrow> gemini_tool_call chunk list \<times> gemini_state" where
  "convert_candidate now model meta i cand st =
     (let candidateIndex = (case cand_index cand of Some k \<Rightarrow> k | None \<Rightarrow> int i);
          parts = (case content_parts cand of Some ps \<Rightarrow> ps | None \<Rightarrow> []);
          (results, st1) = convert_parts now model candidateIndex parts st
      in if truthy (finishReason cand) then
           (let chunk = (gemini_makeChunk st1 model)
                  \<lparr>choice_index := candidateIndex,
                   finish_reason := Some
                     (if candidateIndex \<in> candidatesWithFunctionCalls st1 then ''tool_calls''
                      else mapFinishReason (or_else (finishReason cand) [])),
                   chunk_usage := gemini_mapUsage meta\<rparr>
            in (results @ [chunk], st1))
         else (results, st1))"

fun convert_candidates ::
  "nat \<Rightarrow> string \<Rightarrow> usage_metadata option \<Rightarrow> nat \<Rightarrow> candidate list \<Rightarrow> gemini_state
     \<Rightarrow> gemini_tool_call chunk list \<times> gemini_state" where
  "convert_candidates now model meta i [] st = ([], st)"
| "convert_candidates now model meta i (c # cs) st =
     (let (r1, st1) = convert_candidate now model meta i c st;
          (r2, st2) = convert_candidates now model meta (i + 1) cs st1
      in (r1 @ r2, st2))"

definition update_metadata ::
  "(string \<Rightarrow> int option) \<Rightarrow> nat \<Rightarrow> gemini_data \<Rightarrow> gemini_state \<Rightarrow> gemini_state" where
  "update_metadata date_ms now data st =
     (let st1 = (if truthy (responseId data) then st\<lparr>st_id := or_else (responseId data) []\<rparr>
                 else st);
          st2 = (if truthy (modelVersion data) then st1\<lparr>st_model := modelVersion data\<rparr>
                 else st1)
      in if truthy (createTime data) then
           (let ts = parseCreateTime date_ms now (createTime data)
            in if ts \<noteq> int (now div 1000) then st2\<lparr>st_created := ts\<rparr> else st2)
         else st2)"

definition convertGeminiChunkToOpenAI ::
  "(string \<Rightarrow> int option) \<Rightarrow> nat \<Rightarrow> gemini_frame \<Rightarrow> string \<Rightarrow> gemini_state
     \<Rightarrow> gemini_tool_call chunk list \<times> gemini_state" where
  "convertGeminiChunkToOpenAI date_ms now geminiData model st0 =
     (let data = unwrap geminiData;
          st = update_metadata date_ms now data st0;
          cands = (case candidates data of Some cs \<Rightarrow> cs | None \<Rightarrow> [])
      in if cands = [] \<and> usageMetadata data \<noteq> None then
           ([(gemini_makeChunk st model)
               \<lparr>finish_reason := Some ''stop'',
                chunk_usage := gemini_mapUsage (usageMetadata data)\<rparr>], st)
         else convert_candidates now model (usageMetadata data) 0 cands st)"

text \<open>
  A stream of parsed frames, each with the clock reading at its conversion, through one
  state: what \<open>convertStreamChunk\<close> does with the frames it parses, in order.
\<close>

fun convert_frames ::
  "(string \<Rightarrow> int option) \<Rightarrow> string \<Rightarrow> (nat \<times> gemini_frame) list \<Rightarrow> gemini_state
     \<Rightarrow> gemini_tool_call chunk list \<times> gemini_state" where
  "convert_frames date_ms model [] st = ([], st)"
| "convert_frames date_ms model ((now, f) # fs) st =
     (let (r1, st1) = convertGeminiChunkToOpenAI date_ms now f model st;
          (r2, st2) = convert_frames date_ms model fs st1
      in (r1 @ r2, st2))"

text \<open>
  \<open>convertResponse\<close>, the conversion of a complete response: the accumulators of the
  loop over a candidate's parts, the body of that loop, the loop, the function mapped over
  the candidates with their positions, and \<open>convertResponse\<close>.
\<close>

record message_tool_call =
  mtc_id :: string
  mtc_type :: string
  mtc_name :: string
  mtc_arguments :: string

record message =
  msg_role :: string
  msg_content :: "string option"
  msg_reasoning_content :: "string option"
  msg_tool_calls :: "message_tool_call list option"
  msg_images :: "image_ref list option"

record choice =
  ch_index :: int
  ch_message :: message
  ch_finish_reason :: string

record completion =
  cmpl_id :: string
  cmpl_object :: string
  cmpl_created :: int
  cmpl_model :: string
  cmpl_choices :: "choice list"
  cmpl_usage :: "usage option"

record part_acc =
  textParts :: "string list"
  thoughtParts :: "string list"
  toolCalls :: "message_tool_call list"
  acc_images :: "image_ref list"
  fnIndex :: nat

definition collect_part :: "nat \<Rightarrow> part \<Rightarrow> part_acc \<Rightarrow> part_acc" where
  "collect_part now p acc =
     (if signature_only p then acc
      else case functionCall p of
        Some fc \<Rightarrow>
          acc\<lparr>toolCalls := toolCalls acc @
                 [\<lparr>mtc_id = fc_name fc @ ''-'' @ dec now @ ''-'' @ dec (fnIndex acc),
                   mtc_type = ''function'', mtc_name = fc_name fc,
                   mtc_arguments = or_else (fc_args fc) ''{}''\<rparr>],
               fnIndex := fnIndex acc + 1\<rparr>
      | None \<Rightarrow>
          (case part_text p of
             Some t \<Rightarrow>
               (if thought p then acc\<lparr>thoughtParts := thoughtParts acc @ [t]\<rparr>
                else acc\<lparr>textParts := textParts acc @ [t]\<rparr>)
           | None \<Rightarrow>
               (case inline_of p of
                  Some b \<Rightarrow>
                    (if truthy (blob_data b) then
                       acc\<lparr>acc_images := acc_images acc @
                              [\<lparr>image_type = ''image_url'',
                                image_index = length (acc_images acc),
                                image_url = data_url b (or_else (blob_data b) [])\<rparr>]\<rparr>
                     else acc)
                | None \<Rightarrow> acc)))"

fun collect_parts :: "nat \<Rightarrow> part list \<Rightarrow> part_acc \<Rightarrow> part_acc" where
  "collect_parts now [] acc = acc"
| "collect_parts now (p # ps) acc = collect_parts now ps (collect_part now p acc)"

definition some_if_nonempty :: "'a list \<Rightarrow> 'a list option" where
  "some_if_nonempty xs = (if length xs > 0 then Some xs else None)"

definition candidate_choice :: "nat \<Rightarrow> candidate \<Rightarrow> nat \<Rightarrow> choice" where
  "candidate_choice now cand i =
     (let parts = (case content_parts cand of Some ps \<Rightarrow> ps | None \<Rightarrow> []);
          acc = collect_parts now parts
                  \<lparr>textParts = [], thoughtParts = [], toolCalls = [], acc_images = [],
                   fnIndex = 0\<rparr>;
          msg = \<lparr>msg_role = ''assistant'',
                 msg_content = (if length (textParts acc) > 0 then Some (concat (textParts acc))
                                else None),
                 msg_reasoning_content =
                   (if length (thoughtParts acc) > 0 then Some (concat (thoughtParts acc))
                    else None),
                 msg_tool_calls = some_if_nonempty (toolCalls acc),
                 msg_images = some_if_nonempty (acc_images acc)\<rparr>;
          finishReason' =
            (if length (toolCalls acc) > 0 then ''tool_calls''
             else if truthy (finishReason cand)
                  then mapFinishReason (or_else (finishReason cand) [])
             else ''stop'')
      in \<lparr>ch_index = (case cand_index cand of Some k \<Rightarrow> k | None \<Rightarrow> int i),
          ch_message = msg, ch_finish_reason = finishReason'\<rparr>)"

definition gemini_convertResponse ::
  "(string \<Rightarrow> int option) \<Rightarrow> nat \<Rightarrow> gemini_frame \<Rightarrow> string \<Rightarrow> completion" where
  "gemini_convertResponse date_ms now geminiData model =
     (let data = unwrap geminiData;
          cands = (case candidates data of Some cs \<Rightarrow> cs | None \<Rightarrow> [])
      in \<lparr>cmpl_id = or_else (responseId data) (''chatcmpl-'' @ dec now),
          cmpl_object = ''chat.completion'',
          cmpl_created = parseCreateTime date_ms now (createTime data),
          cmpl_model = or_else (modelVersion data) model,
          cmpl_choices = map (\<lambda>(cand, i). candidate_choice now cand i)
                           (zip cands [0 ..< length cands]),
          cmpl_usage = gemini_mapUsage (usageMetadata data)\<rparr>)"

section \<open>The Codex converter (\<open>codexToOpenAI.js\<close>)\<close>

text \<open>
  The parsed events of the Responses API, as far as the converter reads them. An event
  also carries the backend's own position of its output item, \<open>output_index\<close>. The name
  of an item is read for function-call items only, which always carry one.
\<close>

record codex_item =
  item_type :: "string option"
  call_id :: "string option"
  item_id :: "string option"
  item_name :: string
  item_arguments :: "string option"

record codex_event =
  ev_type :: "string option"
  ev_delta :: "string option"
  ev_arguments :: "string option"
  ev_item :: "codex_item option"
  ev_response :: "codex_response option"
  ev_message :: "string option"
  ev_code :: "string option"
  output_index :: "int option"

text \<open>\<open>eventData.response || {}\<close>.\<close>

definition response_of :: "codex_event \<Rightarrow> codex_response" where
  "response_of eventData =
     (case ev_response eventData of
        Some r \<Rightarrow> r
      | None \<Rightarrow> \<lparr>resp_id = None, resp_created_at = None, resp_model = None,
                  resp_status = None, incomplete_reason = None, resp_error = None,
                  resp_usage = None\<rparr>)"

record codex_state =
  cx_responseId :: string
  createdAt :: int
  cx_model :: string
  functionCallIndex :: int
  hasReceivedArgumentsDelta :: bool
  hasToolCallAnnounced :: bool
  cx_roleSent :: bool

definition codex_createStreamState :: codex_state where
  "codex_createStreamState =
     \<lparr>cx_responseId = [], createdAt = 0, cx_model = [], functionCallIndex = - 1,
      hasReceivedArgumentsDelta = False, hasToolCallAnnounced = False, cx_roleSent = False\<rparr>"

record codex_tool_call =
  ctc_index :: int
  ctc_id :: "string option"
  ctc_type :: "string option"
  ctc_name :: "js_value option"
  ctc_arguments :: "string option"

record error_object =
  eo_message :: string
  eo_type :: string
  eo_code :: "string option"

text \<open>
  One emitted string \<open>data: ${JSON.stringify(x)}\n\n\<close>, by the object \<open>x\<close> it carries.
\<close>

datatype codex_sse = ChunkData "codex_tool_call chunk" | ErrorData error_object

text \<open>\<open>a || b\<close> where \<open>b\<close> may be missing as well.\<close>

definition or_opt :: "string option \<Rightarrow> string option \<Rightarrow> string option" where
  "or_opt a b = (if truthy a then a else b)"

definition codex_makeChunk :: "nat \<Rightarrow> codex_state \<Rightarrow> string \<Rightarrow> codex_tool_call chunk" where
  "codex_makeChunk now st model =
     \<lparr>chunk_id = (if cx_responseId st \<noteq> [] then cx_responseId st
                   else ''chatcmpl-'' @ dec now),
      chunk_object = ''chat.completion.chunk'',
      chunk_created = (if createdAt st \<noteq> 0 then createdAt st else int (now div 1000)),
      chunk_model = (if cx_model st \<noteq> [] then cx_model st else model),
      choice_index = 0, choice_delta = empty_delta, finish_reason = None,
      chunk_usage = None\<rparr>"

definition emitChunk ::
  "nat \<Rightarrow> codex_state \<Rightarrow> string \<Rightarrow> codex_tool_call delta
     \<Rightarrow> codex_sse list \<times> codex_state" where
  "emitChunk now st model d =
     (let chunk = codex_makeChunk now st model;
          (d', st') = (if \<not> cx_roleSent st
                       then (d\<lparr>role := Some ''assistant''\<rparr>, st\<lparr>cx_roleSent := True\<rparr>)
                       else (d, st))
      in ([ChunkData (chunk\<lparr>choice_delta := d'\<rparr>)], st'))"

text \<open>\<open>_parseCreatedAt\<close> and \<open>CodexToOpenAIConverter._mapUsage\<close>.\<close>

definition parseCreatedAt ::
  "(string \<Rightarrow> int option) \<Rightarrow> nat \<Rightarrow> created_at option \<Rightarrow> int" where
  "parseCreatedAt date_ms now createdAt' =
     (case createdAt' of
        None \<Rightarrow> int (now div 1000)
      | Some (Seconds n) \<Rightarrow> if n = 0 then int (now div 1000) else n
      | Some (DateString s) \<Rightarrow>
          if s = [] then int (now div 1000)
          else (case date_ms s of None \<Rightarrow> int (now div 1000) | Some ms \<Rightarrow> ms div 1000))"

definition codex_mapUsage :: "codex_usage option \<Rightarrow> usage option" where
  "codex_mapUsage u =
     (case u of
        None \<Rightarrow> None
      | Some x \<Rightarrow>
          Some \<lparr>prompt_tokens = num_or0 (input_tokens x),
                completion_tokens = num_or0 (output_tokens x),
                total_tokens = num_or0 (usage_total_tokens x),
                completion_tokens_details = positive (reasoning_tokens x),
                prompt_tokens_details = positive (cached_tokens x)\<rparr>)"

text \<open>The handlers of the events, in the order of the source.\<close>

definition handleResponseCreated ::
  "(string \<Rightarrow> int option) \<Rightarrow> nat \<Rightarrow> codex_event \<Rightarrow> codex_state
     \<Rightarrow> codex_sse list \<times> codex_state" where
  "handleResponseCreated date_ms now eventData st =
     (let resp = response_of eventData;
          st1 = st\<lparr>cx_responseId := or_else (resp_id resp) []\<rparr>;
          st2 = (if resp_created_at resp \<noteq> None \<and> resp_created_at resp \<noteq> Some (Seconds 0)
                    \<and> resp_created_at resp \<noteq> Some (DateString [])
                 then st1\<lparr>createdAt := parseCreatedAt date_ms now (resp_created_at resp)\<rparr>
                 else st1)
      in ([], st2\<lparr>cx_model := or_else (resp_model resp) []\<rparr>))"

definition is_function_call :: "codex_item option \<Rightarrow> bool" where
  "is_function_call item = (case item of None \<Rightarrow> False | Some it \<Rightarrow> item_type it = Some ''function_call'')"

definition handleOutputItemAdded ::
  "js_object \<Rightarrow> nat \<Rightarrow> codex_event \<Rightarrow> string \<Rightarrow> codex_state
     \<Rightarrow> codex_sse list \<times> codex_state" where
  "handleOutputItemAdded reverseToolNameMap now eventData model st =
     (case ev_item eventData of
        None \<Rightarrow> ([], st)
      | Some item \<Rightarrow>
          if item_type item \<noteq> Some ''function_call'' then ([], st)
          else
            (let st1 = st\<lparr>functionCallIndex := functionCallIndex st + 1,
                          hasReceivedArgumentsDelta := False,
                          hasToolCallAnnounced := True\<rparr>
             in emitChunk now st1 model
                  (empty_delta\<lparr>tool_calls := Some
                     [\<lparr>ctc_index = functionCallIndex st1,
                       ctc_id = or_opt (call_id item) (item_id item),
                       ctc_type = Some ''function'',
                       ctc_name = Some (restoreToolName reverseToolNameMap (item_name item)),
                       ctc_arguments = Some []\<rparr>]\<rparr>)))"

definition handleArgumentsDelta ::
  "nat \<Rightarrow> codex_event \<Rightarrow> string \<Rightarrow> codex_state \<Rightarrow> codex_sse list \<times> codex_state" where
  "handleArgumentsDelta now eventData model st =
     (let st1 = st\<lparr>hasReceivedArgumentsDelta := True\<rparr>
      in emitChunk now st1 model
           (empty_delta\<lparr>tool_calls := Some
              [\<lparr>ctc_index = functionCallIndex st1, ctc_id = None, ctc_type = None,
                ctc_name = None, ctc_arguments = ev_delta eventData\<rparr>]\<rparr>))"

definition handleArgumentsDone ::
  "nat \<Rightarrow> codex_event \<Rightarrow> string \<Rightarrow> codex_state \<Rightarrow> codex_sse list \<times> codex_state" where
  "handleArgumentsDone now eventData model st =
     (if hasReceivedArgumentsDelta st then ([], st)
      else emitChunk now st model
             (empty_delta\<lparr>tool_calls := Some
                [\<lparr>ctc_index = functionCallIndex st, ctc_id = None, ctc_type = None,
                  ctc_name = None,
                  ctc_arguments = Some (or_else (ev_arguments eventData) ''{}'')\<rparr>]\<rparr>))"

definition handleOutputItemDone ::
  "js_object \<Rightarrow> nat \<Rightarrow> codex_event \<Rightarrow> string \<Rightarrow> codex_state
     \<Rightarrow> codex_sse list \<times> codex_state" where
  "handleOutputItemDone reverseToolNameMap now eventData model st =
     (case ev_item eventData of
        None \<Rightarrow> ([], st)
      | Some item \<Rightarrow>
          if item_type item \<noteq> Some ''function_call'' then ([], st)
          else if hasToolCallAnnounced st then ([], st\<lparr>hasToolCallAnnounced := False\<rparr>)
          else
            (let st1 = st\<lparr>functionCallIndex := functionCallIndex st + 1\<rparr>
             in emitChunk now st1 model
                  (empty_delta\<lparr>tool_calls := Some
                     [\<lparr>ctc_index = functionCallIndex st1,
                       ctc_id = or_opt (call_id item) (item_id item),
                       ctc_type = Some ''function'',
                       ctc_name = Some (restoreToolName reverseToolNameMap (item_name item)),
                       ctc_arguments = Some (or_else (item_arguments item) ''{}'')\<rparr>]\<rparr>)))"

definition terminal_chunk :: "nat \<Rightarrow> codex_response \<Rightarrow> string \<Rightarrow> codex_state \<Rightarrow> codex_sse" where
  "terminal_chunk now resp model st =
     ChunkData ((codex_makeChunk now st model)
       \<lparr>finish_reason := Some (if functionCallIndex st \<ge> 0 then ''tool_calls''
                               else mapResponseStatus resp),
        chunk_usage := codex_mapUsage (resp_usage resp)\<rparr>)"

definition handleResponseCompleted ::
  "nat \<Rightarrow> codex_event \<Rightarrow> string \<Rightarrow> codex_state \<Rightarrow> codex_sse list \<times> codex_state" where
  "handleResponseCompleted now eventData model st =
     ([terminal_chunk now (response_of eventData) model st], st)"

definition handleResponseError ::
  "nat \<Rightarrow> codex_event \<Rightarrow> string \<Rightarrow> codex_state \<Rightarrow> codex_sse list \<times> codex_state" where
  "handleResponseError now eventData model st =
     (let resp = response_of eventData;
          results1 =
            (if resp_status resp = Some ''failed'' then
               [ErrorData
                  (case resp_error resp of
                     None \<Rightarrow> \<lparr>eo_message = ''Response failed'', eo_type = ''server_error'',
                               eo_code = None\<rparr>
                   | Some err \<Rightarrow>
                       \<lparr>eo_message = or_else (err_message err) ''Response failed'',
                        eo_type = or_else (err_type err) ''server_error'',
                        eo_code = or_opt (err_code err) None\<rparr>)]
             else []);
          results2 =
            (if resp_status resp \<noteq> Some ''failed''
             then [terminal_chunk now resp model st] else [])
      in (results1 @ results2, st))"

definition handleStreamError :: "codex_event \<Rightarrow> codex_state \<Rightarrow> codex_sse list \<times> codex_state" where
  "handleStreamError eventData st =
     ([ErrorData \<lparr>eo_message = or_else (ev_message eventData) ''Unknown error'',
                  eo_type = ''server_error'',
                  eo_code = or_opt (ev_code eventData) None\<rparr>], st)"

text \<open>\<open>CodexToOpenAIConverter.convertStreamChunk\<close>: the dispatch on the event's type.\<close>

definition codex_convertStreamChunk ::
  "js_object \<Rightarrow> (string \<Rightarrow> int option) \<Rightarrow> nat \<Rightarrow> codex_event \<Rightarrow> string \<Rightarrow> codex_state
     \<Rightarrow> codex_sse list \<times> codex_state" where
  "codex_convertStreamChunk reverseToolNameMap date_ms now eventData model st =
     (if \<not> truthy (ev_type eventData) then ([], st)
      else if ev_type eventData = Some ''response.created''
        then handleResponseCreated date_ms now eventData st
      else if ev_type eventData = Some ''response.reasoning_summary_text.delta''
        then emitChunk now st model (empty_delta\<lparr>reasoning_content := ev_delta eventData\<rparr>)
      else if ev_type eventData = Some ''response.reasoning_summary_text.done''
        then ([], st)
      else if ev_type eventData = Some ''response.output_text.delta''
        then emitChunk now st model (empty_delta\<lparr>content := ev_delta eventData\<rparr>)
      else if ev_type eventData = Some ''response.output_item.added''
        then handleOutputItemAdded reverseToolNameMap now eventData model st
      else if ev_type eventData = Some ''response.function_call_arguments.delta''
        then handleArgumentsDelta now eventData model st
      else if ev_type eventData = Some ''response.function_call_arguments.done''
        then handleArgumentsDone now eventData model st
      else if ev_type eventData = Some ''response.output_item.done''
        then handleOutputItemDone reverseToolNameMap now eventData model st
      else if ev_type eventData = Some ''response.completed''
        then handleResponseCompleted now eventData model st
      else if ev_type eventData = Some ''response.failed''
              \<or> ev_type eventData = Some ''response.incomplete''
        then handleResponseError now eventData model st
      else if ev_type eventData = Some ''error''
        then handleStreamError eventData st
      else ([], st))"

text \<open>
  A stream of parsed events, each with the clock reading at its conversion, through one
  state: what the router's write hook does with the events it parses, in order.
\<close>

fun codex_events ::
  "js_object \<Rightarrow> (string \<Rightarrow> int option) \<Rightarrow> string \<Rightarrow> (nat \<times> codex_event) list \<Rightarrow> codex_state
     \<Rightarrow> codex_sse list \<times> codex_state" where
  "codex_events rmap date_ms model [] st = ([], st)"
| "codex_events rmap date_ms model ((now, e) # es) st =
     (let (r1, st1) = codex_convertStreamChunk rmap date_ms now e model st;
          (r2, st2) = codex_events rmap date_ms model es st1
      in (r1 @ r2, st2))"

section \<open>The router's hooks on complete responses\<close>

text \<open>
  The patched \<open>res.json\<close> of the router's OpenAI branch and of its Gemini branch.
  \<open>convertResponse data\<close> is the converter's \<open>convertResponse\<close> on the payload, \<open>Inl e\<close>
  when it throws \<open>e\<close>. The first predicate is the test on the shape of the payload. The
  result is what reaches the original \<open>json\<close>, the payload as it came or its conversion,
  or \<open>Inl e\<close> when the exception \<open>e\<close> leaves the hook.
\<close>

datatype ('d, 'r) sent = Original 'd | Converted 'r

definition codex_res_json ::
  "nat \<Rightarrow> ('d \<Rightarrow> bool) \<Rightarrow> ('d \<Rightarrow> string + 'r) \<Rightarrow> 'd \<Rightarrow> string + ('d, 'r) sent" where
  "codex_res_json statusCode is_response convertResponse data' =
     (if statusCode \<ge> 400 then Inr (Original data')
      else if is_response data' then
        (case convertResponse data' of
           Inr r \<Rightarrow> Inr (Converted r)
         | Inl e \<Rightarrow> Inr (Original data'))
      else Inr (Original data'))"

definition gemini_res_json ::
  "nat \<Rightarrow> ('d \<Rightarrow> bool) \<Rightarrow> ('d \<Rightarrow> string + 'r) \<Rightarrow> 'd \<Rightarrow> string + ('d, 'r) sent" where
  "gemini_res_json statusCode has_candidates convertResponse data' =
     (if statusCode \<ge> 400 then Inr (Original data')
      else if has_candidates data' then
        (case convertResponse data' of
           Inr r \<Rightarrow> Inr (Converted r)
         | Inl e \<Rightarrow> Inl e)
      else Inr (Original data'))"

section \<open>What the claims measure on a stream\<close>

text \<open>
  The roles of the chunks that carry a delta, in order; the shape the claim gives that
  list, the role on the first and on no other; and the number of chunks with a role.
  \<open>roles_step b rs b'\<close> is what one piece of a stream does to the flag \<open>roleSent\<close>: started
  with the flag \<open>b\<close>, it emits deltas with the roles \<open>rs\<close> and leaves the flag \<open>b'\<close>.
\<close>

definition role_flags :: "'tc chunk list \<Rightarrow> string option list" where
  "role_flags cs = map (\<lambda>c. role (choice_delta c)) (filter (\<lambda>c. choice_delta c \<noteq> empty_delta) cs)"

definition first_only :: "string option list \<Rightarrow> bool" where
  "first_only rs = (rs = [] \<or> rs = Some ''assistant'' # replicate (length rs - 1) None)"

definition role_count :: "'tc chunk list \<Rightarrow> nat" where
  "role_count cs = length (filter (\<lambda>c. role (choice_delta c) \<noteq> None) cs)"

definition roles_step :: "bool \<Rightarrow> string option list \<Rightarrow> bool \<Rightarrow> bool" where
  "roles_step b rs b' =
     (rs = (if b \<or> rs = [] then replicate (length rs) None
            else Some ''assistant'' # replicate (length rs - 1) None)
      \<and> b' = (b \<or> rs \<noteq> []))"

text \<open>
  The number of chunks with a finish reason that a list of chunks holds for the choice
  \<open>k\<close>, and the number of entries of a frame that finish the choice \<open>k\<close>: the candidates
  with a finish reason and that index, or, for choice \<open>0\<close>, the frame itself when it has
  usage metadata and no candidates.
\<close>

definition terminal_count :: "int \<Rightarrow> 'tc chunk list \<Rightarrow> nat" where
  "terminal_count k cs = length (filter (\<lambda>c. finish_reason c \<noteq> None \<and> choice_index c = k) cs)"

fun finishing_entries :: "int \<Rightarrow> nat \<Rightarrow> candidate list \<Rightarrow> nat" where
  "finishing_entries k i [] = 0"
| "finishing_entries k i (c # cs) =
     (if truthy (finishReason c) \<and> (case cand_index c of Some j \<Rightarrow> j | None \<Rightarrow> int i) = k
      then 1 else 0) + finishing_entries k (i + 1) cs"

definition frame_terminals :: "int \<Rightarrow> gemini_frame \<Rightarrow> nat" where
  "frame_terminals k f =
     (let data = unwrap f;
          cands = (case candidates data of Some cs \<Rightarrow> cs | None \<Rightarrow> [])
      in if cands = [] \<and> usageMetadata data \<noteq> None then (if k = 0 then 1 else 0)
         else finishing_entries k 0 cands)"

text \<open>
  The chunks among the emitted events of the Codex converter; the slots a chunk
  announces, which are the indices of its tool-call entries of type \<open>function\<close> (argument
  fragments carry no type); the events that take a new slot, given the state they meet;
  and a list of integers that counts up from \<open>a\<close>. \<open>announced_calls\<close> pairs each
  announced slot with the call id beside it. \<open>step_ok\<close> collects what one event does
  to the slot counter and to the role flag.
\<close>

fun chunks_of :: "codex_sse list \<Rightarrow> codex_tool_call chunk list" where
  "chunks_of [] = []"
| "chunks_of (ChunkData c # xs) = c # chunks_of xs"
| "chunks_of (ErrorData e # xs) = chunks_of xs"

definition announced :: "codex_tool_call chunk \<Rightarrow> int list" where
  "announced c =
     (case tool_calls (choice_delta c) of
        None \<Rightarrow> []
      | Some tcs \<Rightarrow> map ctc_index (filter (\<lambda>tc. ctc_type tc = Some ''function'') tcs))"

definition announced_calls :: "codex_sse list \<Rightarrow> (int \<times> string option) list" where
  "announced_calls out =
     concat (map (\<lambda>c. case tool_calls (choice_delta c) of
                         None \<Rightarrow> []
                       | Some tcs \<Rightarrow> map (\<lambda>tc. (ctc_index tc, ctc_id tc))
                                      (filter (\<lambda>tc. ctc_type tc = Some ''function'') tcs))
                 (chunks_of out))"

definition announced_slots :: "codex_sse list \<Rightarrow> int list" where
  "announced_slots out = concat (map announced (chunks_of out))"

definition assigns_slot :: "codex_event \<Rightarrow> codex_state \<Rightarrow> bool" where
  "assigns_slot e st =
     (is_function_call (ev_item e)
      \<and> (ev_type e = Some ''response.output_item.added''
           \<or> (ev_type e = Some ''response.output_item.done'' \<and> \<not> hasToolCallAnnounced st)))"

fun consecutive_from :: "int \<Rightarrow> int list \<Rightarrow> bool" where
  "consecutive_from a [] = True"
| "consecutive_from a (x # xs) = (x = a \<and> consecutive_from (a + 1) xs)"

definition step_ok ::
  "bool \<Rightarrow> codex_state \<Rightarrow> codex_sse list \<times> codex_state \<Rightarrow> bool" where
  "step_ok assigns st r =
     (announced_slots (fst r) = (if assigns then [functionCallIndex st + 1] else [])
      \<and> functionCallIndex (snd r) = functionCallIndex st + (if assigns then 1 else 0)
      \<and> roles_step (cx_roleSent st) (role_flags (chunks_of (fst r))) (cx_roleSent (snd r)))"

text \<open>
  Sample inputs: the two frames of the specification's scenario, a frame of usage
  metadata alone, a clock-free date parser, a stream of events in which two function
  calls are both announced before either is done and a third follows, and one with two
  function calls, the second never announced by an \<open>added\<close> event.
\<close>

definition hi_frame :: gemini_frame where
  "hi_frame =
     \<lparr>responseId = None, modelVersion = None, createTime = None,
      candidates = Some
        [\<lparr>cand_index = None,
          content_parts = Some
            [\<lparr>thoughtSignature = None, part_text = Some ''Hi'', thought = False,
              functionCall = None, inlineData = None, inline_data = None\<rparr>],
          finishReason = None\<rparr>],
      usageMetadata = None, response = None\<rparr>"

definition stop_frame :: gemini_frame where
  "stop_frame =
     \<lparr>responseId = None, modelVersion = None, createTime = None,
      candidates = Some
        [\<lparr>cand_index = None, content_parts = None, finishReason = Some ''STOP''\<rparr>],
      usageMetadata = Some
        \<lparr>promptTokenCount = Some 5, candidatesTokenCount = Some 2,
         thoughtsTokenCount = None, totalTokenCount = Some 7,
         cachedContentTokenCount = None\<rparr>,
      response = None\<rparr>"

definition usage_only_frame :: gemini_frame where
  "usage_only_frame =
     \<lparr>responseId = None, modelVersion = None, createTime = None, candidates = None,
      usageMetadata = Some
        \<lparr>promptTokenCount = Some 5, candidatesTokenCount = Some 2,
         thoughtsTokenCount = Some 3, totalTokenCount = Some 7,
         cachedContentTokenCount = None\<rparr>,
      response = None\<rparr>"

definition no_date :: "string \<Rightarrow> int option" where
  "no_date s = None"

definition call_item :: "string \<Rightarrow> codex_item" where
  "call_item cid =
     \<lparr>item_type = Some ''function_call'', call_id = Some cid, item_id = None,
      item_name = ''lookup'', item_arguments = Some ''{}''\<rparr>"

definition event :: "string \<Rightarrow> codex_event" where
  "event ty =
     \<lparr>ev_type = Some ty, ev_delta = None, ev_arguments = None, ev_item = None,
      ev_response = None, ev_message = None, ev_code = None, output_index = None\<rparr>"

definition interleaved_events :: "(nat \<times> codex_event) list" where
  "interleaved_events =
     [(1, (event ''response.output_item.added'')\<lparr>ev_item := Some (call_item ''call_a'')\<rparr>),
      (2, (event ''response.output_item.added'')\<lparr>ev_item := Some (call_item ''call_b'')\<rparr>),
      (3, (event ''response.output_item.done'')\<lparr>ev_item := Some (call_item ''call_a'')\<rparr>),
      (4, (event ''response.output_item.done'')\<lparr>ev_item := Some (call_item ''call_b'')\<rparr>),
      (5, (event ''response.output_item.added'')\<lparr>ev_item := Some (call_item ''call_c'')\<rparr>)]"

definition sample_events :: "(nat \<times> codex_event) list" where
  "sample_events =
     [(1, (event ''response.output_text.delta'')\<lparr>ev_delta := Some ''a''\<rparr>),
      (2, (event ''response.output_item.added'')
            \<lparr>ev_item := Some (call_item ''call_a''), output_index := Some 7\<rparr>),
      (3, (event ''response.function_call_arguments.delta'')\<lparr>ev_delta := Some ''x''\<rparr>),
      (4, (event ''response.output_item.done'')
            \<lparr>ev_item := Some (call_item ''call_a''), output_index := Some 7\<rparr>),
      (5, (event ''response.output_item.done'')
            \<lparr>ev_item := Some (call_item ''call_b''), output_index := Some 3\<rparr>),
      (6, event ''response.completed'')]"

section \<open>Proofs: frame reassembly\<close>

text \<open>
  Both loops end: every turn cuts the blank line it found off the buffer.
\<close>

lemma indexOf_bound: "indexOf buf pat = Some idx \<Longrightarrow> idx + length pat \<le> length buf"
proof (induction buf arbitrary: idx)
  case Nil
  then show ?case by (auto split: if_splits)
next
  case (Cons c cs)
  show ?case
  proof (cases "prefix pat (c # cs)")
    case True
    with Cons.prems have "idx = 0" by simp
    with prefix_length_le[OF True] show ?thesis by simp
  next
    case False
    with Cons.prems obtain j where "indexOf cs pat = Some j" "idx = Suc j" by auto
    with Cons.IH show ?thesis by simp
  qed
qed

lemma drop_separator_shorter:
  "indexOf buf [LF, LF] = Some idx \<Longrightarrow> length buf - Suc (Suc idx) < length buf"
  using indexOf_bound[of buf "[LF, LF]" idx] by simp

termination events_loop
  by (relation "measure (\<lambda>(convert, buf, st). length buf)")
     (simp_all add: drop_separator_shorter del: indexOf.simps)

termination gemini_events_loop
  by (relation "measure (\<lambda>(convert, buf, st). length buf)")
     (simp_all add: drop_separator_shorter del: indexOf.simps)

declare events_loop.simps [simp del]
declare gemini_events_loop.simps [simp del]

lemma prefix_append_long: "length pat \<le> length b \<Longrightarrow> prefix pat (b @ x) = prefix pat b"
  by (metis prefix_append prefix_length_le prefix_order.eq_iff prefix_length_prefix prefixI append_eq_append_conv_if append_prefixD)

lemma indexOf_append: "indexOf b pat = Some i \<Longrightarrow> indexOf (b @ x) pat = Some i"
proof (induction b arbitrary: i)
  case Nil
  then show ?case by (cases x) (auto split: if_splits)
next
  case (Cons c cs)
  show ?case
  proof (cases "prefix pat (c # cs)")
    case True
    with Cons.prems have "i = 0" by simp
    moreover from True have "prefix pat ((c # cs) @ x)" by (rule prefix_prefix)
    ultimately show ?thesis by simp
  next
    case False
    with Cons.prems obtain j where j: "indexOf cs pat = Some j" "i = Suc j" by auto
    from indexOf_bound[OF j(1)] have "length pat \<le> length (c # cs)" by simp
    then have "prefix pat ((c # cs) @ x) = prefix pat (c # cs)" by (rule prefix_append_long)
    with False have "\<not> prefix pat (c # cs @ x)" by simp
    with j Cons.IH[OF j(1)] show ?thesis by simp
  qed
qed

text \<open>
  The loop of the OpenAI branch on a buffer with more text after it: the events of the
  buffer first, then the loop on what it left with the new text behind. So the hook
  called chunk by chunk does what the loop does on the texts of the chunks joined.
\<close>

lemma events_loop_None:
  "indexOf buf [LF, LF] = None \<Longrightarrow> events_loop h buf st = ([], buf, st)"
  by (subst events_loop.simps) simp

lemma events_loop_Some:
  "indexOf buf [LF, LF] = Some idx \<Longrightarrow>
   events_loop h buf st =
     (if trim (take idx buf) = [] then events_loop h (drop (idx + 2) buf) st
      else (case lines_loop h (split_lines (take idx buf)) st of
              (out1, st1) \<Rightarrow>
                (case events_loop h (drop (idx + 2) buf) st1 of
                   (out2, rest, st2) \<Rightarrow> (out1 @ out2, rest, st2))))"
  by (subst events_loop.simps) (simp add: Let_def split: prod.splits)

lemma events_loop_append:
  "events_loop h (b @ x) st =
     (case events_loop h b st of
        (o1, r1, s1) \<Rightarrow>
          (case events_loop h (r1 @ x) s1 of (o2, r2, s2) \<Rightarrow> (o1 @ o2, r2, s2)))"
proof (induction h b st rule: events_loop.induct)
  case (1 h b st)
  show ?case
  proof (cases "indexOf b [LF, LF]")
    case None
    then show ?thesis by (simp add: events_loop_None split: prod.splits)
  next
    case (Some idx)
    then have ia: "indexOf (b @ x) [LF, LF] = Some idx" by (rule indexOf_append)
    from indexOf_bound[OF Some] have len: "idx + 2 \<le> length b" by simp
    then have tk: "take idx (b @ x) = take idx b"
      and dr: "drop (idx + 2) (b @ x) = drop (idx + 2) b @ x" by simp_all
    note l = events_loop_Some[OF ia, of h st, unfolded tk dr]
    note r = events_loop_Some[OF Some, of h st]
    show ?thesis
    proof (cases "trim (take idx b) = []")
      case True
      have l': "events_loop h (b @ x) st = events_loop h (drop (idx + 2) b @ x) st"
        using l True by simp
      have r': "events_loop h b st = events_loop h (drop (idx + 2) b) st"
        using r True by simp
      show ?thesis unfolding l' r' by (rule "1.IH"(1)[OF Some refl refl True])
    next
      case False
      obtain out1 st1 where ll: "lines_loop h (split_lines (take idx b)) st = (out1, st1)"
        by (cases "lines_loop h (split_lines (take idx b)) st")
      have l': "events_loop h (b @ x) st =
          (case events_loop h (drop (idx + 2) b @ x) st1 of
             (out2, rest, st2) \<Rightarrow> (out1 @ out2, rest, st2))"
        using l False ll by simp
      have r': "events_loop h b st =
          (case events_loop h (drop (idx + 2) b) st1 of
             (out2, rest, st2) \<Rightarrow> (out1 @ out2, rest, st2))"
        using r False ll by simp
      show ?thesis unfolding l' r'
        using "1.IH"(2)[OF Some refl refl False ll[symmetric] refl]
        by (simp split: prod.splits)
    qed
  qed
qed

lemma normalize_crlf_append:
  "\<not> (a \<noteq> [] \<and> last a = CR \<and> b \<noteq> [] \<and> hd b = LF) \<Longrightarrow>
   normalize_crlf (a @ b) = normalize_crlf a @ normalize_crlf b"
proof (induction a rule: normalize_crlf.induct)
  case 1
  then show ?case by simp
next
  case (2 c)
  then show ?case by (cases b) auto
next
  case (3 c d cs)
  then show ?case by (auto split: if_splits)
qed

lemma normalize_crlf_concat:
  "\<not> splits_crlf chunks \<Longrightarrow>
   normalize_crlf (concat chunks) = concat (map normalize_crlf chunks)"
  by (induction chunks) (auto simp: normalize_crlf_append)

lemma events_loop_rest:
  "events_loop h b st = (out, rest, st') \<Longrightarrow> indexOf rest [LF, LF] = None"
proof (induction h b st arbitrary: out rest st' rule: events_loop.induct)
  case (1 h b st)
  show ?case
  proof (cases "indexOf b [LF, LF]")
    case None
    with "1.prems" show ?thesis by (simp add: events_loop_None)
  next
    case (Some idx)
    note r = events_loop_Some[OF Some, of h st]
    show ?thesis
    proof (cases "trim (take idx b) = []")
      case True
      with r "1.prems" have "events_loop h (drop (idx + 2) b) st = (out, rest, st')" by simp
      then show ?thesis by (rule "1.IH"(1)[OF Some refl refl True])
    next
      case False
      obtain out1 st1 where ll: "lines_loop h (split_lines (take idx b)) st = (out1, st1)"
        by (cases "lines_loop h (split_lines (take idx b)) st")
      obtain out2 rest2 st2 where e2: "events_loop h (drop (idx + 2) b) st1 = (out2, rest2, st2)"
        by (cases "events_loop h (drop (idx + 2) b) st1")
      from r False ll e2 "1.prems" have "rest2 = rest" by simp
      with "1.IH"(2)[OF Some refl refl False ll[symmetric] refl e2] show ?thesis by simp
    qed
  qed
qed

lemma codex_feed:
  assumes "statusCode < 400"
  shows "indexOf (buffer state) [LF, LF] = None \<Longrightarrow>
     feed (codex_write statusCode convert) chunks state =
     (case events_loop convert
             (buffer state @ concat (map (\<lambda>c. normalize_crlf (chunk_text c)) chunks))
             (conv state) of
        (w, rest, st') \<Rightarrow> (map Text w, \<lparr>buffer = rest, conv = st'\<rparr>))"
proof (induction chunks arbitrary: state)
  case Nil
  then show ?case by (simp add: events_loop_None)
next
  case (Cons c cs)
  let ?n = "\<lambda>c. normalize_crlf (chunk_text c)"
  obtain w1 r1 s1 where e1:
    "events_loop convert (buffer state @ ?n c) (conv state) = (w1, r1, s1)"
    by (cases "events_loop convert (buffer state @ ?n c) (conv state)")
  have cw: "codex_write statusCode convert c state = (map Text w1, \<lparr>buffer = r1, conv = s1\<rparr>)"
    using assms e1 by (simp add: codex_write_def Let_def)
  have "indexOf (buffer \<lparr>buffer = r1, conv = s1\<rparr>) [LF, LF] = None"
    using events_loop_rest[OF e1] by simp
  note ih = Cons.IH[OF this]
  have "events_loop convert (buffer state @ concat (map ?n (c # cs))) (conv state)
      = (case events_loop convert (r1 @ concat (map ?n cs)) s1 of
           (o2, r2, s2) \<Rightarrow> (w1 @ o2, r2, s2))"
    using events_loop_append[of convert "buffer state @ ?n c" "concat (map ?n cs)" "conv state"]
      e1 by simp
  then show ?case by (simp add: cw ih split: prod.splits)
qed

text \<open>
  The same for the loop of \<open>convertStreamChunk\<close>, where an exception ends the run: the
  text that arrives later stays behind what the buffer held at the throw.
\<close>

lemma gemini_events_loop_None:
  "indexOf buf [LF, LF] = None \<Longrightarrow> gemini_events_loop h buf st = Inr ([], buf, st)"
  by (subst gemini_events_loop.simps) simp

lemma gemini_events_loop_Some:
  "indexOf buf [LF, LF] = Some idx \<Longrightarrow>
   gemini_events_loop h buf st =
     (if trim (take idx buf) = [] then gemini_events_loop h (drop (idx + 2) buf) st
      else (case gemini_lines_loop h (split_lines (take idx buf)) st of
              Inl (e, st1) \<Rightarrow> Inl (e, drop (idx + 2) buf, st1)
            | Inr (out1, st1) \<Rightarrow>
                (case gemini_events_loop h (drop (idx + 2) buf) st1 of
                   Inl thrown \<Rightarrow> Inl thrown
                 | Inr (out2, rest, st2) \<Rightarrow> Inr (out1 @ out2, rest, st2))))"
  by (subst gemini_events_loop.simps) (simp only: option.case Let_def)

lemma gemini_events_loop_append:
  "gemini_events_loop h (b @ x) st =
     (case gemini_events_loop h b st of
        Inl (e, r, s1) \<Rightarrow> Inl (e, r @ x, s1)
      | Inr (o1, r1, s1) \<Rightarrow>
          (case gemini_events_loop h (r1 @ x) s1 of
             Inl thrown \<Rightarrow> Inl thrown
           | Inr (o2, r2, s2) \<Rightarrow> Inr (o1 @ o2, r2, s2)))"
proof (induction h b st rule: gemini_events_loop.induct)
  case (1 h b st)
  show ?case
  proof (cases "indexOf b [LF, LF]")
    case None
    then show ?thesis by (simp add: gemini_events_loop_None split: sum.splits prod.splits)
  next
    case (Some idx)
    then have ia: "indexOf (b @ x) [LF, LF] = Some idx" by (rule indexOf_append)
    from indexOf_bound[OF Some] have len: "idx + 2 \<le> length b" by simp
    then have tk: "take idx (b @ x) = take idx b"
      and dr: "drop (idx + 2) (b @ x) = drop (idx + 2) b @ x" by simp_all
    note l = gemini_events_loop_Some[OF ia, of h st, unfolded tk dr]
    note r = gemini_events_loop_Some[OF Some, of h st]
    show ?thesis
    proof (cases "trim (take idx b) = []")
      case True
      have l': "gemini_events_loop h (b @ x) st = gemini_events_loop h (drop (idx + 2) b @ x) st"
        using l True by simp
      have r': "gemini_events_loop h b st = gemini_events_loop h (drop (idx + 2) b) st"
        using r True by simp
      show ?thesis unfolding l' r' by (rule "1.IH"(1)[OF Some refl refl True])
    next
      case False
      show ?thesis
      proof (cases "gemini_lines_loop h (split_lines (take idx b)) st")
        case (Inl thrown)
        obtain e st1 where t: "thrown = (e, st1)" by (cases thrown)
        have l': "gemini_events_loop h (b @ x) st = Inl (e, drop (idx + 2) b @ x, st1)"
          using l False Inl t by simp
        have r': "gemini_events_loop h b st = Inl (e, drop (idx + 2) b, st1)"
          using r False Inl t by simp
        show ?thesis unfolding l' r' by simp
      next
        case (Inr res)
        obtain out1 st1 where t: "res = (out1, st1)" by (cases res)
        have l': "gemini_events_loop h (b @ x) st =
            (case gemini_events_loop h (drop (idx + 2) b @ x) st1 of
               Inl thrown \<Rightarrow> Inl thrown
             | Inr (out2, rest, st2) \<Rightarrow> Inr (out1 @ out2, rest, st2))"
          using l False Inr t by simp
        have r': "gemini_events_loop h b st =
            (case gemini_events_loop h (drop (idx + 2) b) st1 of
               Inl thrown \<Rightarrow> Inl thrown
             | Inr (out2, rest, st2) \<Rightarrow> Inr (out1 @ out2, rest, st2))"
          using r False Inr t by simp
        have ih: "gemini_events_loop h (drop (idx + 2) b @ x) st1 =
            (case gemini_events_loop h (drop (idx + 2) b) st1 of
               Inl (e, r, s1) \<Rightarrow> Inl (e, r @ x, s1)
             | Inr (o1, r1, s1) \<Rightarrow>
                 (case gemini_events_loop h (r1 @ x) s1 of
                    Inl thrown \<Rightarrow> Inl thrown
                  | Inr (o2, r2, s2) \<Rightarrow> Inr (o1 @ o2, r2, s2)))"
          using "1.IH"(2)[OF Some refl refl False] Inr t by simp
        show ?thesis unfolding l' r' ih by (simp split: sum.splits prod.splits)
      qed
    qed
  qed
qed

lemma gemini_events_loop_rest:
  "gemini_events_loop h b st = Inr (out, rest, st') \<Longrightarrow> indexOf rest [LF, LF] = None"
proof (induction h b st arbitrary: out rest st' rule: gemini_events_loop.induct)
  case (1 h b st)
  show ?case
  proof (cases "indexOf b [LF, LF]")
    case None
    with "1.prems" show ?thesis by (simp add: gemini_events_loop_None)
  next
    case (Some idx)
    note r = gemini_events_loop_Some[OF Some, of h st]
    show ?thesis
    proof (cases "trim (take idx b) = []")
      case True
      with r "1.prems" have "gemini_events_loop h (drop (idx + 2) b) st = Inr (out, rest, st')"
        by simp
      then show ?thesis by (rule "1.IH"(1)[OF Some refl refl True])
    next
      case False
      from r False "1.prems" obtain out1 st1 where
        ll: "gemini_lines_loop h (split_lines (take idx b)) st = Inr (out1, st1)"
        by (auto split: sum.splits)
      from r False ll "1.prems" obtain out2 st2 where
        e2: "gemini_events_loop h (drop (idx + 2) b) st1 = Inr (out2, rest, st2)"
        by (auto split: sum.splits)
      from "1.IH"(2)[OF Some refl refl False ll refl e2] show ?thesis .
    qed
  qed
qed

text \<open>
  Line feeds at the front of the buffer change nothing but what the loop leaves: two
  of them are an empty event, and one before an event is an empty line of it. Two
  buffers that differ in such line feeds only are handled alike.
\<close>

lemma trim_Nil_iff: "trim s = [] \<longleftrightarrow> (\<forall>c\<in>set s. is_space c)"
proof
  assume t: "trim s = []"
  show "\<forall>c\<in>set s. is_space c"
  proof (cases "dropWhile is_space s = []")
    case True
    then show ?thesis by (simp add: dropWhile_eq_Nil_conv)
  next
    case False
    then have "\<not> is_space (hd (dropWhile is_space s))" by (rule hd_dropWhile)
    moreover from t have "\<forall>c\<in>set (dropWhile is_space s). is_space c"
      by (simp add: trim_def dropWhile_eq_Nil_conv)
    ultimately show ?thesis using False by (metis hd_in_set)
  qed
next
  assume "\<forall>c\<in>set s. is_space c"
  then have d: "dropWhile is_space s = []" by (simp add: dropWhile_eq_Nil_conv)
  show "trim s = []" unfolding trim_def d by simp
qed

lemma is_space_LF: "is_space LF"
  by (simp add: is_space_def LF_def)

lemma trim_LF: "trim (LF # e) = [] \<longleftrightarrow> trim e = []"
  by (simp add: trim_Nil_iff is_space_LF)

lemma gemini_line_Nil: "gemini_line h [] st = Inr ([], st)"
  by (simp add: gemini_line_def startsWith_def units_def)

lemma gemini_events_loop_LF_LF:
  "gemini_events_loop h (LF # LF # t) st = gemini_events_loop h t st"
proof -
  have "indexOf (LF # LF # t) [LF, LF] = Some 0" by simp
  from gemini_events_loop_Some[OF this, of h st] show ?thesis by (simp add: trim_def)
qed

lemma indexOf_LF:
  "y = [] \<or> hd y \<noteq> LF \<Longrightarrow> indexOf (LF # y) [LF, LF] = map_option Suc (indexOf y [LF, LF])"
  by (cases y) auto

lemma gemini_events_loop_LF:
  assumes "y = [] \<or> hd y \<noteq> LF" and "indexOf y [LF, LF] = Some idx"
  shows "gemini_events_loop h (LF # y) st = gemini_events_loop h y st"
proof -
  have i: "indexOf (LF # y) [LF, LF] = Some (Suc idx)"
    using indexOf_LF[OF assms(1)] assms(2) by simp
  have tk: "take (Suc idx) (LF # y) = LF # take idx y"
    and dr: "drop (Suc idx + 2) (LF # y) = drop (idx + 2) y" by simp_all
  have sl: "gemini_lines_loop h (split_lines (LF # take idx y)) st
      = gemini_lines_loop h (split_lines (take idx y)) st"
    by (simp add: gemini_line_Nil split: sum.splits)
  note l = gemini_events_loop_Some[OF i, of h st, unfolded tk dr trim_LF sl]
  note r = gemini_events_loop_Some[OF assms(2), of h st]
  show ?thesis unfolding l r ..
qed

lemma gemini_events_loop_leading:
  assumes "y = [] \<or> hd y \<noteq> LF"
  shows "gemini_events_loop h (replicate n LF @ y) st =
     (case indexOf y [LF, LF] of
        Some idx \<Rightarrow> gemini_events_loop h y st
      | None \<Rightarrow> Inr ([], replicate (n mod 2) LF @ y, st))"
proof (induction n rule: induct_nat_012)
  case 0
  then show ?case by (simp add: gemini_events_loop_None split: option.splits)
next
  case 1
  show ?case
  proof (cases "indexOf y [LF, LF]")
    case None
    then have "indexOf (LF # y) [LF, LF] = None" using indexOf_LF[OF assms] by simp
    then show ?thesis using None by (simp add: gemini_events_loop_None)
  next
    case (Some idx)
    then show ?thesis using gemini_events_loop_LF[OF assms Some] by simp
  qed
next
  case (ge2 n)
  have "Suc (Suc n) mod 2 = n mod 2" by simp
  with ge2(1) show ?case by (simp add: gemini_events_loop_LF_LF split: option.splits)
qed

lemma takeWhile_LF_replicate:
  "takeWhile (\<lambda>x. x = LF) t = replicate (length (takeWhile (\<lambda>x. x = LF) t)) LF"
  by (induction t) auto

lemma leading_split:
  "t = replicate (length (takeWhile (\<lambda>x. x = LF) t)) LF @ drop_lfs t"
  unfolding drop_lfs_def using takeWhile_LF_replicate[of t] takeWhile_dropWhile_id[of "\<lambda>x. x = LF" t]
  by metis

lemma drop_lfs_head: "drop_lfs t = [] \<or> hd (drop_lfs t) \<noteq> LF"
  unfolding drop_lfs_def using hd_dropWhile[of "\<lambda>x. x = LF" t] by blast

lemma drop_lfs_replicate: "y = [] \<or> hd y \<noteq> LF \<Longrightarrow> drop_lfs (replicate n LF @ y) = y"
  by (cases y) (auto simp: drop_lfs_def dropWhile_append)

lemma gemini_events_loop_related:
  assumes "drop_lfs a = drop_lfs b"
  shows "gemini_events_loop h a st = gemini_events_loop h b st
     \<or> (\<exists>r1 r2. gemini_events_loop h a st = Inr ([], r1, st)
            \<and> gemini_events_loop h b st = Inr ([], r2, st)
            \<and> drop_lfs r1 = drop_lfs r2)"
proof -
  let ?y = "drop_lfs a"
  let ?m = "length (takeWhile (\<lambda>x. x = LF) a)"
  let ?n = "length (takeWhile (\<lambda>x. x = LF) b)"
  have a: "a = replicate ?m LF @ ?y" by (rule leading_split)
  have b: "b = replicate ?n LF @ ?y" using leading_split[of b] assms by simp
  have y: "?y = [] \<or> hd ?y \<noteq> LF" by (rule drop_lfs_head)
  note la = gemini_events_loop_leading[OF y, of h ?m st, folded a]
  note lb = gemini_events_loop_leading[OF y, of h ?n st, folded b]
  show ?thesis
  proof (cases "indexOf ?y [LF, LF]")
    case None
    with la lb show ?thesis by (simp add: drop_lfs_replicate[OF y])
  next
    case (Some idx)
    with la lb show ?thesis by simp
  qed
qed

lemma drop_lfs_append:
  "drop_lfs a = drop_lfs b \<Longrightarrow> drop_lfs (a @ x) = drop_lfs (b @ x)"
  unfolding drop_lfs_def
  by (metis dropWhile_append1 dropWhile_append2 dropWhile_eq_Nil_conv)

text \<open>
  The calls on the chunks against the loop on the texts joined. \<open>bn\<close> is what the loop
  has left of the text so far; the buffer of the chunked run holds the same but for
  the line feeds handed through as heartbeats.
\<close>

lemma all_LF_replicate: "filter (\<lambda>x. x \<noteq> LF) t = [] \<Longrightarrow> t = replicate (length t) LF"
  by (induction t) (auto split: if_splits)

lemma drop_lfs_Nil_all_LF: "drop_lfs t = [] \<Longrightarrow> t = replicate (length t) LF"
  unfolding drop_lfs_def by (induction t) (auto split: if_splits)

lemma gemini_events_loop_all_LF:
  "gemini_events_loop h (replicate n LF) st = Inr ([], replicate (n mod 2) LF, st)"
  using gemini_events_loop_leading[of "[]" h n st] by simp

lemma drop_lfs_replicate_LF: "drop_lfs (replicate n LF) = []"
  by (simp add: drop_lfs_def)

lemma indexOf_LF_at_most_one: "indexOf (replicate (n mod 2) LF) [LF, LF] = None"
proof -
  have "n mod 2 = 0 \<or> n mod 2 = 1" by auto
  then show ?thesis by auto
qed

lemma drop_lfs_Nil: "drop_lfs [] = []"
  by (simp add: drop_lfs_def)

lemma gemini_feed_whole:
  assumes "\<not> passes_blank h chunks state"
    and "indexOf bn [LF, LF] = None"
    and "drop_lfs (buffer state) = drop_lfs bn"
  shows "case gemini_feed h chunks state of
           (rs, Inr s) \<Rightarrow>
             (\<exists>pieces rest.
                gemini_events_loop h
                  (bn @ concat (map (\<lambda>c. normalize_crlf (chunk_text c)) chunks)) (conv state)
                  = Inr (pieces, rest, conv s)
                \<and> concat pieces = concat (map converted rs)
                \<and> drop_lfs rest = drop_lfs (buffer s))
         | (rs, Inl (e, s)) \<Rightarrow>
             (\<exists>rest.
                gemini_events_loop h
                  (bn @ concat (map (\<lambda>c. normalize_crlf (chunk_text c)) chunks)) (conv state)
                  = Inl (e, rest, conv s))"
  using assms
proof (induction chunks arbitrary: state bn)
  case Nil
  then show ?case by (simp add: gemini_events_loop_None)
next
  case (Cons c cs)
  let ?n = "\<lambda>c. normalize_crlf (chunk_text c)"
  let ?x = "?n c"
  let ?R = "concat (map ?n cs)"
  let ?st = "conv state"
  have app: "gemini_events_loop h (bn @ ?x @ ?R) ?st =
     (case gemini_events_loop h (bn @ ?x) ?st of
        Inl (e, r, s1) \<Rightarrow> Inl (e, r @ ?R, s1)
      | Inr (o1, r1, s1) \<Rightarrow>
          (case gemini_events_loop h (r1 @ ?R) s1 of
             Inl thrown \<Rightarrow> Inl thrown
           | Inr (o2, r2, s2) \<Rightarrow> Inr (o1 @ o2, r2, s2)))"
    using gemini_events_loop_append[of h "bn @ ?x" ?R ?st] by simp
  show ?case
  proof (cases "trim ?x = [] \<and> buffer state = []")
    case True
    with Cons.prems(1) have lf: "filter (\<lambda>x. x \<noteq> LF) ?x = []" by simp
    have step: "gemini_convertStreamChunk h c state = Inr (Passed ?x, state)"
      using True by (simp add: gemini_convertStreamChunk_def)
    with Cons.prems(1) have nb: "\<not> passes_blank h cs state" by simp
    from Cons.prems(3) True have "drop_lfs bn = []" by (simp add: drop_lfs_def)
    then have bn: "bn = replicate (length bn) LF" by (rule drop_lfs_Nil_all_LF)
    have x: "?x = replicate (length ?x) LF" using lf by (rule all_LF_replicate)
    have "bn @ ?x = replicate (length bn + length ?x) LF"
      using bn x by (metis replicate_add)
    then have n1: "gemini_events_loop h (bn @ ?x) ?st
        = Inr ([], replicate ((length bn + length ?x) mod 2) LF, ?st)"
      using gemini_events_loop_all_LF[of h "length bn + length ?x" ?st] by simp
    let ?bn' = "replicate ((length bn + length ?x) mod 2) LF"
    have d': "drop_lfs (buffer state) = drop_lfs ?bn'"
      using True by (simp add: drop_lfs_replicate_LF) (simp add: drop_lfs_def)
    note ih = Cons.IH[OF nb indexOf_LF_at_most_one d']
    have app': "gemini_events_loop h (bn @ ?x @ ?R) ?st
        = gemini_events_loop h (?bn' @ ?R) ?st"
      by (simp add: app n1 split: sum.splits prod.splits)
    obtain rs res where f: "gemini_feed h cs state = (rs, res)"
      by (cases "gemini_feed h cs state")
    have f': "gemini_feed h (c # cs) state = (Passed ?x # rs, res)"
      using step f by simp
    have cp: "converted (Passed ?x) = []" by (simp add: converted_def)
    show ?thesis
    proof (cases res)
      case (Inl thrown)
      obtain e s where th: "thrown = (e, s)" by (cases thrown)
      from ih obtain rest where
        "gemini_events_loop h (?bn' @ ?R) ?st = Inl (e, rest, conv s)"
        by (auto simp: f Inl th)
      then show ?thesis by (simp add: f' Inl th app' del: gemini_feed.simps)
    next
      case (Inr s)
      from ih obtain pieces rest where
        "gemini_events_loop h (?bn' @ ?R) ?st = Inr (pieces, rest, conv s)"
        "concat pieces = concat (map converted rs)"
        "drop_lfs rest = drop_lfs (buffer s)"
        by (auto simp: f Inr)
      then show ?thesis by (simp add: f' Inr app' cp del: gemini_feed.simps)
    qed
  next
    case False
    have rel: "drop_lfs (buffer state @ ?x) = drop_lfs (bn @ ?x)"
      using Cons.prems(3) by (rule drop_lfs_append)
    show ?thesis
    proof (cases "gemini_events_loop h (buffer state @ ?x) ?st")
      case (Inl thrown)
      obtain e r s1 where t: "thrown = (e, r, s1)" by (cases thrown)
      have step: "gemini_convertStreamChunk h c state = Inl (e, \<lparr>buffer = r, conv = s1\<rparr>)"
        using False Inl t by (auto simp: gemini_convertStreamChunk_def Let_def)
      have n1: "gemini_events_loop h (bn @ ?x) ?st = Inl (e, r, s1)"
        using gemini_events_loop_related[OF rel, of h ?st] Inl t by auto
      have f': "gemini_feed h (c # cs) state = ([], Inl (e, \<lparr>buffer = r, conv = s1\<rparr>))"
        using step by simp
      have "gemini_events_loop h (bn @ ?x @ ?R) ?st = Inl (e, r @ ?R, s1)"
        by (simp add: app n1)
      then show ?thesis by (simp add: f' del: gemini_feed.simps)
    next
      case (Inr res)
      obtain p rh s1 where t: "res = (p, rh, s1)" by (cases res)
      let ?state1 = "\<lparr>buffer = rh, conv = s1\<rparr>"
      define r where "r = Output (if concat p = [] then None else Some (concat p))"
      have step: "gemini_convertStreamChunk h c state = Inr (r, ?state1)"
        using False Inr t by (auto simp: gemini_convertStreamChunk_def Let_def r_def)
      with Cons.prems(1) have nb: "\<not> passes_blank h cs ?state1" by simp
      have "\<exists>rn. gemini_events_loop h (bn @ ?x) ?st = Inr (p, rn, s1)
                \<and> drop_lfs rh = drop_lfs rn"
      proof -
        from gemini_events_loop_related[OF rel, of h ?st]
        consider (same) "gemini_events_loop h (buffer state @ ?x) ?st
                          = gemini_events_loop h (bn @ ?x) ?st"
          | (rests) r1 r2 where "gemini_events_loop h (buffer state @ ?x) ?st = Inr ([], r1, ?st)"
              "gemini_events_loop h (bn @ ?x) ?st = Inr ([], r2, ?st)"
              "drop_lfs r1 = drop_lfs r2"
          by blast
        then show ?thesis
        proof cases
          case same
          with Inr t have "gemini_events_loop h (bn @ ?x) ?st = Inr (p, rh, s1)" by simp
          then show ?thesis by blast
        next
          case rests
          with Inr t show ?thesis by simp
        qed
      qed
      then obtain rn where n1: "gemini_events_loop h (bn @ ?x) ?st = Inr (p, rn, s1)"
        and d: "drop_lfs rh = drop_lfs rn" by blast
      have d': "drop_lfs (buffer ?state1) = drop_lfs rn" using d by simp
      note ih = Cons.IH[OF nb gemini_events_loop_rest[OF n1] d']
      obtain rs res' where f: "gemini_feed h cs ?state1 = (rs, res')"
        by (cases "gemini_feed h cs ?state1")
      have f': "gemini_feed h (c # cs) state = (r # rs, res')"
        using step f by simp
      have cv: "converted r = concat p" by (simp add: converted_def r_def)
      show ?thesis
      proof (cases res')
        case (Inl thrown)
        obtain e s where th: "thrown = (e, s)" by (cases thrown)
        from ih obtain rest where
          "gemini_events_loop h (rn @ ?R) s1 = Inl (e, rest, conv s)"
          by (auto simp: f Inl th)
        then have "gemini_events_loop h (bn @ ?x @ ?R) ?st = Inl (e, rest, conv s)"
          by (simp add: app n1)
        then show ?thesis by (simp add: f' Inl th del: gemini_feed.simps)
      next
        case (Inr s)
        from ih obtain pieces rest where
          l: "gemini_events_loop h (rn @ ?R) s1 = Inr (pieces, rest, conv s)"
          and c: "concat pieces = concat (map converted rs)"
          and b: "drop_lfs rest = drop_lfs (buffer s)"
          by (auto simp: f Inr)
        have "gemini_events_loop h (bn @ ?x @ ?R) ?st = Inr (p @ pieces, rest, conv s)"
          by (simp add: app n1 l)
        then show ?thesis using c b by (simp add: f' Inr cv del: gemini_feed.simps)
      qed
    qed
  qed
qed

lemma blank_stream_all_LF:
  "\<not> passes_blank h chunks state \<Longrightarrow> buffer state = [] \<Longrightarrow>
   trim (concat (map (\<lambda>c. normalize_crlf (chunk_text c)) chunks)) = [] \<Longrightarrow>
   filter (\<lambda>x. x \<noteq> LF) (concat (map (\<lambda>c. normalize_crlf (chunk_text c)) chunks)) = []"
proof (induction chunks)
  case Nil
  then show ?case by simp
next
  case (Cons c cs)
  let ?x = "normalize_crlf (chunk_text c)"
  from Cons.prems(3) have wc: "trim ?x = []"
    and wcs: "trim (concat (map (\<lambda>c. normalize_crlf (chunk_text c)) cs)) = []"
    by (auto simp: trim_Nil_iff)
  with Cons.prems(1,2) have c: "filter (\<lambda>x. x \<noteq> LF) ?x = []" by simp
  have "gemini_convertStreamChunk h c state = Inr (Passed ?x, state)"
    using wc Cons.prems(2) by (simp add: gemini_convertStreamChunk_def)
  with Cons.prems(1) have "\<not> passes_blank h cs state" by simp
  from Cons.IH[OF this Cons.prems(2) wcs] c show ?case by simp
qed

lemma whole_text:
  "\<not> decodes_differently chunks \<Longrightarrow> \<not> splits_crlf (map chunk_text chunks) \<Longrightarrow>
   normalize_crlf (chunk_text (whole chunks))
     = concat (map (\<lambda>c. normalize_crlf (chunk_text c)) chunks)"
  using normalize_crlf_concat[of "map chunk_text chunks"]
  by (simp add: decodes_differently_def comp_def)

lemma gemini_whole:
  assumes "\<not> decodes_differently chunks" and "\<not> splits_crlf (map chunk_text chunks)"
    and "\<not> passes_blank h chunks \<lparr>buffer = [], conv = st\<rparr>"
  shows "case gemini_feed h chunks \<lparr>buffer = [], conv = st\<rparr> of
           (rs, Inr s) \<Rightarrow>
             (\<exists>r s'. gemini_convertStreamChunk h (whole chunks) \<lparr>buffer = [], conv = st\<rparr>
                        = Inr (r, s')
                \<and> converted r = concat (map converted rs)
                \<and> conv s' = conv s
                \<and> drop_lfs (buffer s') = drop_lfs (buffer s))
         | (rs, Inl (e, s)) \<Rightarrow>
             (\<exists>s'. gemini_convertStreamChunk h (whole chunks) \<lparr>buffer = [], conv = st\<rparr>
                        = Inl (e, s')
                \<and> conv s' = conv s)"
proof -
  let ?fresh = "\<lparr>buffer = [], conv = st\<rparr> :: 'a framed"
  let ?X = "concat (map (\<lambda>c. normalize_crlf (chunk_text c)) chunks)"
  have X: "normalize_crlf (chunk_text (whole chunks)) = ?X"
    using assms(1,2) by (rule whole_text)
  have i0: "indexOf ([] :: jstring) [LF, LF] = None" by simp
  have d0: "drop_lfs (buffer ?fresh) = drop_lfs []" by simp
  note fw = gemini_feed_whole[OF assms(3) i0 d0, simplified]
  obtain rs res where f: "gemini_feed h chunks ?fresh = (rs, res)"
    by (cases "gemini_feed h chunks ?fresh")
  show ?thesis
  proof (cases "trim ?X = []")
    case True
    have "filter (\<lambda>x. x \<noteq> LF) ?X = []"
      using blank_stream_all_LF[OF assms(3) _ True] by simp
    then have "?X = replicate (length ?X) LF" by (rule all_LF_replicate)
    then have l: "gemini_events_loop h ?X st = Inr ([], replicate (length ?X mod 2) LF, st)"
      using gemini_events_loop_all_LF[of h "length ?X" st] by simp
    have w: "gemini_convertStreamChunk h (whole chunks) ?fresh = Inr (Passed ?X, ?fresh)"
      using True by (simp add: gemini_convertStreamChunk_def X)
    have cp: "converted (Passed ?X) = []" by (simp add: converted_def)
    show ?thesis
      using fw by (auto simp: f w l cp drop_lfs_replicate_LF drop_lfs_Nil split: sum.splits)
  next
    case False
    show ?thesis
    proof (cases "gemini_events_loop h ?X st")
      case (Inl thrown)
      obtain e rest st' where t: "thrown = (e, rest, st')" by (metis prod_cases3)
      have w: "gemini_convertStreamChunk h (whole chunks) ?fresh
          = Inl (e, \<lparr>buffer = rest, conv = st'\<rparr>)"
        using False Inl t by (simp add: gemini_convertStreamChunk_def X)
      from fw obtain s where "res = Inl (e, s)" "conv s = st'"
        by (auto simp: f Inl t split: sum.splits)
      then show ?thesis by (simp add: f w)
    next
      case (Inr result)
      obtain pieces rest st' where t: "result = (pieces, rest, st')" by (metis prod_cases3)
      define r where "r = Output (if concat pieces = [] then None else Some (concat pieces))"
      have w: "gemini_convertStreamChunk h (whole chunks) ?fresh
          = Inr (r, \<lparr>buffer = rest, conv = st'\<rparr>)"
        using False Inr t by (simp add: gemini_convertStreamChunk_def X Let_def r_def)
      have cv: "converted r = concat pieces" by (simp add: converted_def r_def)
      from fw obtain s where "res = Inr s" "conv s = st'"
        "concat pieces = concat (map converted rs)" "drop_lfs rest = drop_lfs (buffer s)"
        by (auto simp: f Inr t split: sum.splits)
      then show ?thesis by (simp add: f w cv)
    qed
  qed
qed

text \<open>
  A buffer whose text has no replacement character ends where a character ends, and
  what follows it decodes as it does by itself. So no chunk boundary changes the text
  of a stream in which no buffer holds ill-formed or cut UTF-8.
\<close>

lemma utf8_decode_start: "utf8_decode 0 cp lo hi bs = utf8_decode 0 0 128 191 bs"
  by (cases bs) simp_all

lemma utf8_decode_append:
  "65533 \<notin> set (utf8_decode needed cp lo hi a) \<Longrightarrow>
   utf8_decode needed cp lo hi (a @ b) = utf8_decode needed cp lo hi a @ toString b"
proof (induction a arbitrary: needed cp lo hi)
  case Nil
  then have "needed = 0" by (simp split: if_splits)
  then show ?case using utf8_decode_start[of cp lo hi b] by (simp add: toString_def)
next
  case (Cons c cs)
  show ?case
  proof (cases "needed \<noteq> 0 \<and> lo \<le> c \<and> c \<le> hi")
    case True
    with Cons.prems Cons.IH show ?thesis by (auto split: if_splits)
  next
    case False
    with Cons.prems have n: "needed = 0" by (auto split: if_splits)
    with Cons.prems Cons.IH show ?thesis by (auto split: if_splits)
  qed
qed

lemma toString_append:
  "65533 \<notin> set (toString a) \<Longrightarrow> toString (a @ b) = toString a @ toString b"
  unfolding toString_def using utf8_decode_append[of 0 0 128 191 a b]
  by (simp add: toString_def)

lemma toString_concat:
  "\<forall>a\<in>set bss. 65533 \<notin> set (toString a) \<Longrightarrow>
   toString (concat bss) = concat (map toString bss)"
proof (induction bss)
  case Nil
  then show ?case by (simp add: toString_def)
next
  case (Cons a bss)
  then show ?case by (simp add: toString_append)
qed

lemma all_bytes_Some:
  "all_bytes chunks = Some bss \<Longrightarrow> chunks = map Bytes bss"
proof (induction chunks arbitrary: bss)
  case Nil
  then show ?case by simp
next
  case (Cons c cs)
  then show ?case by (cases c) auto
qed

lemma well_formed_chunks:
  assumes "\<forall>c\<in>set chunks. 65533 \<notin> set (chunk_text c)"
  shows "\<not> decodes_differently chunks"
proof (cases "all_bytes chunks")
  case None
  then show ?thesis by (simp add: decodes_differently_def whole_def chunk_text_def)
next
  case (Some bss)
  then have c: "chunks = map Bytes bss" by (rule all_bytes_Some)
  with assms have "\<forall>a\<in>set bss. 65533 \<notin> set (toString a)" by (simp add: chunk_text_def)
  then have "toString (concat bss) = concat (map toString bss)" by (rule toString_concat)
  then show ?thesis using Some c
    by (simp add: decodes_differently_def whole_def chunk_text_def comp_def)
qed

text \<open>
  Claim C1, as amended. Take the chunks of a stream, strings or buffers of bytes, cut so
  that the bytes decode to the same text chunk by chunk as in one piece, and so that no
  carriage return is parted from the line feed after it. The write hook of the OpenAI
  branch, on a status below 400, called on the chunks one by one from an empty buffer,
  makes the same calls of the original \<open>write\<close> and ends in the same state as one call on
  the whole stream; a blank-line separator cut by a chunk boundary is covered. For
  \<open>convertStreamChunk\<close>, suppose further that no chunk of white space other than line
  feeds arrives while its buffer is empty: such a chunk is handed through as a
  heartbeat and takes no part in the framing (a chunk of line feeds handed through is
  allowed). If no call on the chunks throws, one call on the whole stream does not
  throw and returns the same converted text as the calls on the chunks together, in
  the same conversion state, with the same text left in the buffer but for line feeds
  at its front. If a call on the chunks throws, the call on the whole stream throws
  the same exception in the same conversion state; what the earlier calls returned is
  then returned by the chunked run only.
\<close>

theorem reassembly_chunk_boundaries:
  assumes "\<not> decodes_differently chunks" and "\<not> splits_crlf (map chunk_text chunks)"
  shows "(statusCode < 400 \<longrightarrow>
            feed (codex_write statusCode convert) chunks \<lparr>buffer = [], conv = st\<rparr>
              = codex_write statusCode convert (whole chunks) \<lparr>buffer = [], conv = st\<rparr>)
       \<and> (\<not> passes_blank handle chunks \<lparr>buffer = [], conv = gst\<rparr> \<longrightarrow>
            (case gemini_feed handle chunks \<lparr>buffer = [], conv = gst\<rparr> of
               (rs, Inr s) \<Rightarrow>
                 (\<exists>r s'. gemini_convertStreamChunk handle (whole chunks)
                            \<lparr>buffer = [], conv = gst\<rparr> = Inr (r, s')
                    \<and> converted r = concat (map converted rs)
                    \<and> conv s' = conv s
                    \<and> drop_lfs (buffer s') = drop_lfs (buffer s))
             | (rs, Inl (e, s)) \<Rightarrow>
                 (\<exists>s'. gemini_convertStreamChunk handle (whole chunks)
                          \<lparr>buffer = [], conv = gst\<rparr> = Inl (e, s')
                    \<and> conv s' = conv s)))"
proof (intro conjI impI)
  assume status: "statusCode < 400"
  have i0: "indexOf (buffer \<lparr>buffer = [], conv = st\<rparr>) [LF, LF] = None" by simp
  show "feed (codex_write statusCode convert) chunks \<lparr>buffer = [], conv = st\<rparr>
           = codex_write statusCode convert (whole chunks) \<lparr>buffer = [], conv = st\<rparr>"
    using codex_feed[OF status i0, of convert chunks] status
    by (simp add: codex_write_def whole_text[OF assms] Let_def split: prod.splits)
next
  assume "\<not> passes_blank handle chunks \<lparr>buffer = [], conv = gst\<rparr>"
  with assms show "case gemini_feed handle chunks \<lparr>buffer = [], conv = gst\<rparr> of
               (rs, Inr s) \<Rightarrow>
                 (\<exists>r s'. gemini_convertStreamChunk handle (whole chunks)
                            \<lparr>buffer = [], conv = gst\<rparr> = Inr (r, s')
                    \<and> converted r = concat (map converted rs)
                    \<and> conv s' = conv s
                    \<and> drop_lfs (buffer s') = drop_lfs (buffer s))
             | (rs, Inl (e, s)) \<Rightarrow>
                 (\<exists>s'. gemini_convertStreamChunk handle (whole chunks)
                          \<lparr>buffer = [], conv = gst\<rparr> = Inl (e, s')
                    \<and> conv s' = conv s)"
    by (rule gemini_whole)
qed

text \<open>
  The sample stream meets the hypotheses. Both hooks convert its two frames, chunk by
  chunk as on the stream as one chunk; the line feed at the end stays in the buffer of
  the OpenAI branch and is handed through by \<open>convertStreamChunk\<close>.
\<close>

theorem reassembly_chunk_boundaries_witness:
  "\<not> decodes_differently sample_stream
   \<and> \<not> splits_crlf (map chunk_text sample_stream)
   \<and> (200::nat) < 400
   \<and> \<not> passes_blank emit_raw_or_throw sample_stream \<lparr>buffer = [], conv = ()\<rparr>
   \<and> feed (codex_write 200 emit_raw) sample_stream \<lparr>buffer = [], conv = ()\<rparr>
       = codex_write 200 emit_raw (whole sample_stream) \<lparr>buffer = [], conv = ()\<rparr>
   \<and> codex_write 200 emit_raw (whole sample_stream) \<lparr>buffer = [], conv = ()\<rparr>
       = ([Text (units ''data: '' @ [233, LF, LF]), Text (units ''data: B'' @ [LF, LF])],
          \<lparr>buffer = [LF], conv = ()\<rparr>)
   \<and> gemini_feed emit_raw_or_throw sample_stream \<lparr>buffer = [], conv = ()\<rparr>
       = ([Passed [LF], Output None, Output (Some (units ''data: '' @ [233, LF, LF])),
           Output (Some (units ''data: B'' @ [LF, LF])), Passed [LF]],
          Inr \<lparr>buffer = [], conv = ()\<rparr>)
   \<and> (\<exists>r s'. gemini_convertStreamChunk emit_raw_or_throw (whole sample_stream)
                 \<lparr>buffer = [], conv = ()\<rparr> = Inr (r, s')
          \<and> converted r
              = concat (map converted
                  [Passed [LF], Output None, Output (Some (units ''data: '' @ [233, LF, LF])),
                   Output (Some (units ''data: B'' @ [LF, LF])), Passed [LF]])
          \<and> conv s' = conv \<lparr>buffer = [], conv = ()\<rparr>
          \<and> drop_lfs (buffer s') = drop_lfs (buffer \<lparr>buffer = [], conv = ()\<rparr>))"
proof -
  have h1: "\<not> decodes_differently sample_stream" by code_simp
  have h2: "\<not> splits_crlf (map chunk_text sample_stream)" by code_simp
  have h3: "(200::nat) < 400" by simp
  have h4: "\<not> passes_blank emit_raw_or_throw sample_stream \<lparr>buffer = [], conv = ()\<rparr>"
    by code_simp
  have e1: "codex_write 200 emit_raw (whole sample_stream) \<lparr>buffer = [], conv = ()\<rparr>
       = ([Text (units ''data: '' @ [233, LF, LF]), Text (units ''data: B'' @ [LF, LF])],
          \<lparr>buffer = [LF], conv = ()\<rparr>)"
    by code_simp
  have e2: "gemini_feed emit_raw_or_throw sample_stream \<lparr>buffer = [], conv = ()\<rparr>
       = ([Passed [LF], Output None, Output (Some (units ''data: '' @ [233, LF, LF])),
           Output (Some (units ''data: B'' @ [LF, LF])), Passed [LF]],
          Inr \<lparr>buffer = [], conv = ()\<rparr>)"
    by code_simp
  note t = reassembly_chunk_boundaries[OF h1 h2, of 200 emit_raw "()" emit_raw_or_throw "()"]
  note c1 = t[THEN conjunct1, THEN mp, OF h3]
  from t[THEN conjunct2, THEN mp, OF h4]
  have c2: "\<exists>r s'. gemini_convertStreamChunk emit_raw_or_throw (whole sample_stream)
                 \<lparr>buffer = [], conv = ()\<rparr> = Inr (r, s')
          \<and> converted r
              = concat (map converted
                  [Passed [LF], Output None, Output (Some (units ''data: '' @ [233, LF, LF])),
                   Output (Some (units ''data: B'' @ [LF, LF])), Passed [LF]])
          \<and> conv s' = conv \<lparr>buffer = [], conv = ()\<rparr>
          \<and> drop_lfs (buffer s') = drop_lfs (buffer \<lparr>buffer = [], conv = ()\<rparr>)"
    by (simp only: e2 prod.case sum.case)
  from h1 h2 h3 h4 c1 e1 e2 c2 show ?thesis by (intro conjI)
qed

text \<open>
  Claim C1 as stated fails, in four ways. A chunk of one space followed by a chunk
  holding a whole frame: \<open>convertStreamChunk\<close> hands the space through and converts the
  frame, while in the stream as one chunk the line no longer begins with \<open>data: \<close> and
  nothing is converted. A frame whose closing \<open>\r\n\r\n\<close> is cut before its last line
  feed: the OpenAI hook finds no blank line, while on the stream as one chunk it
  converts the frame. A two-byte character cut between two buffers: each half decodes
  to a replacement character, and the payload converted is not the payload of the
  stream as one chunk. A frame followed by a frame whose payload is \<open>null\<close>:
  \<open>convertStreamChunk\<close> returns the first frame converted and throws on the second
  chunk, while on the stream as one chunk it throws and returns nothing.
\<close>

theorem reassembly_chunk_boundaries_counterexample:
  "map converted (fst (gemini_feed emit_raw_or_throw
       [Text (units '' ''), Text (units ''data: B'' @ [LF, LF])] \<lparr>buffer = [], conv = ()\<rparr>))
     = [[], units ''data: B'' @ [LF, LF]]
   \<and> gemini_convertStreamChunk emit_raw_or_throw
       (whole [Text (units '' ''), Text (units ''data: B'' @ [LF, LF])])
       \<lparr>buffer = [], conv = ()\<rparr>
     = Inr (Output None, \<lparr>buffer = [], conv = ()\<rparr>)
   \<and> feed (codex_write 200 emit_raw)
       [Text (units ''data: A'' @ [CR, LF, CR]), Text [LF]] \<lparr>buffer = [], conv = ()\<rparr>
     = ([], \<lparr>buffer = units ''data: A'' @ [LF, CR, LF], conv = ()\<rparr>)
   \<and> codex_write 200 emit_raw
       (whole [Text (units ''data: A'' @ [CR, LF, CR]), Text [LF]]) \<lparr>buffer = [], conv = ()\<rparr>
     = ([Text (units ''data: A'' @ [LF, LF])], \<lparr>buffer = [], conv = ()\<rparr>)
   \<and> feed (codex_write 200 emit_raw)
       [Bytes (units ''data: '' @ [195]), Bytes [169, 10, 10]] \<lparr>buffer = [], conv = ()\<rparr>
     = ([Text (units ''data: '' @ [65533, 65533, LF, LF])], \<lparr>buffer = [], conv = ()\<rparr>)
   \<and> codex_write 200 emit_raw
       (whole [Bytes (units ''data: '' @ [195]), Bytes [169, 10, 10]]) \<lparr>buffer = [], conv = ()\<rparr>
     = ([Text (units ''data: '' @ [233, LF, LF])], \<lparr>buffer = [], conv = ()\<rparr>)
   \<and> gemini_feed emit_raw_or_throw
       [Text (units ''data: A'' @ [LF, LF]), Text (units ''data: null'' @ [LF, LF])]
       \<lparr>buffer = [], conv = ()\<rparr>
     = ([Output (Some (units ''data: A'' @ [LF, LF]))],
        Inl (''TypeError'', \<lparr>buffer = [], conv = ()\<rparr>))
   \<and> gemini_convertStreamChunk emit_raw_or_throw
       (whole [Text (units ''data: A'' @ [LF, LF]), Text (units ''data: null'' @ [LF, LF])])
       \<lparr>buffer = [], conv = ()\<rparr>
     = Inl (''TypeError'', \<lparr>buffer = [], conv = ()\<rparr>)"
  by code_simp

section \<open>Proofs: tool names\<close>

lemma of_char_digit: "d < 10 \<Longrightarrow> (of_char (digit_char d) :: nat) = 48 + d"
  by (simp add: digit_char_def)

lemma digit_char_not_us: "d < 10 \<Longrightarrow> digit_char d \<noteq> CHR ''_''"
proof
  assume d: "d < 10" and e: "digit_char d = CHR ''_''"
  have "(of_char (digit_char d) :: nat) = of_char (CHR ''_'')" by (simp only: e)
  then have "48 + d = (95::nat)" by (simp only: of_char_digit[OF d]) simp
  with d show False by simp
qed

lemma digit_char_inj: "a < 10 \<Longrightarrow> b < 10 \<Longrightarrow> digit_char a = digit_char b \<Longrightarrow> a = b"
proof -
  assume a: "a < 10" and b: "b < 10" and e: "digit_char a = digit_char b"
  have "(of_char (digit_char a) :: nat) = of_char (digit_char b)" by (simp only: e)
  then have "48 + a = 48 + b" by (simp only: of_char_digit[OF a] of_char_digit[OF b])
  then show "a = b" by simp
qed

lemma dec_no_us: "CHR ''_'' \<notin> set (dec n)"
proof (induction n rule: dec.induct)
  case (1 n)
  show ?case
  proof (cases "n < 10")
    case True
    then show ?thesis using digit_char_not_us[of n] by (subst dec.simps) auto
  next
    case False
    have "n mod 10 < 10" by simp
    then have "digit_char (n mod 10) \<noteq> CHR ''_''" by (rule digit_char_not_us)
    with False 1 show ?thesis by (subst dec.simps) auto
  qed
qed

lemma dec_nonempty: "dec n \<noteq> []"
  by (subst dec.simps) simp

lemma dec_inj: "dec a = dec b \<Longrightarrow> a = b"
proof (induction a arbitrary: b rule: dec.induct)
  case (1 a)
  show ?case
  proof (cases "a < 10")
    case True
    then have da: "dec a = [digit_char a]" by (subst dec.simps) simp
    show ?thesis
    proof (cases "b < 10")
      case bs: True
      then have "dec b = [digit_char b]" by (subst dec.simps) simp
      with da "1.prems" True bs show ?thesis by (auto dest: digit_char_inj)
    next
      case bl: False
      then have "dec b = dec (b div 10) @ [digit_char (b mod 10)]" by (subst dec.simps) simp
      with da "1.prems" dec_nonempty[of "b div 10"] show ?thesis
        by (cases "dec (b div 10)") auto
    qed
  next
    case False
    then have da: "dec a = dec (a div 10) @ [digit_char (a mod 10)]"
      by (subst dec.simps) simp
    show ?thesis
    proof (cases "b < 10")
      case bs: True
      then have "dec b = [digit_char b]" by (subst dec.simps) simp
      with da "1.prems" dec_nonempty[of "a div 10"] show ?thesis
        by (cases "dec (a div 10)") auto
    next
      case bl: False
      then have db: "dec b = dec (b div 10) @ [digit_char (b mod 10)]"
        by (subst dec.simps) simp
      from da db "1.prems" have e1: "dec (a div 10) = dec (b div 10)"
        and e2: "digit_char (a mod 10) = digit_char (b mod 10)" by auto
      from "1.IH"[OF False e1] have "a div 10 = b div 10" .
      moreover from e2 have "a mod 10 = b mod 10" by (auto dest!: digit_char_inj[rotated 2])
      ultimately show ?thesis by (metis div_mult_mod_eq)
    qed
  qed
qed

lemma dec_length: "n < 10 ^ k \<Longrightarrow> 0 < k \<Longrightarrow> length (dec n) \<le> k"
proof (induction n arbitrary: k rule: dec.induct)
  case (1 n)
  show ?case
  proof (cases "n < 10")
    case True
    then show ?thesis using "1.prems" by (subst dec.simps) simp
  next
    case False
    then obtain k' where k: "k = Suc k'" using "1.prems" by (cases k) auto
    with False "1.prems" have "0 < k'" by (cases k') auto
    moreover have "n div 10 < 10 ^ k'"
      using "1.prems" k by (simp add: less_mult_imp_div_less mult.commute)
    ultimately have "length (dec (n div 10)) \<le> k'" using "1.IH"[OF False] by blast
    with False k show ?thesis by (subst dec.simps) simp
  qed
qed

lemma baseCandidate_length: "length (baseCandidate n) \<le> LIMIT"
  by (simp add: baseCandidate_def Let_def)

text \<open>The text after the last underscore of a string is determined by the string.\<close>

lemma last_us_unique:
  assumes "p @ CHR ''_'' # d = p' @ CHR ''_'' # d'"
    and "CHR ''_'' \<notin> set d" and "CHR ''_'' \<notin> set d'"
  shows "d = d'"
proof -
  have "rev d @ CHR ''_'' # rev p = rev d' @ CHR ''_'' # rev p'"
    using arg_cong[OF assms(1), of rev] by simp
  then have "takeWhile (\<lambda>c. c \<noteq> CHR ''_'') (rev d @ CHR ''_'' # rev p)
           = takeWhile (\<lambda>c. c \<noteq> CHR ''_'') (rev d' @ CHR ''_'' # rev p')" by simp
  moreover have "takeWhile (\<lambda>c. c \<noteq> CHR ''_'') (rev d @ CHR ''_'' # rev p) = rev d"
    using assms(2) by (auto simp add: takeWhile_tail takeWhile_eq_all_conv)
  moreover have "takeWhile (\<lambda>c. c \<noteq> CHR ''_'') (rev d' @ CHR ''_'' # rev p') = rev d'"
    using assms(3) by (auto simp add: takeWhile_tail takeWhile_eq_all_conv)
  ultimately have "rev d = rev d'" by simp
  then show ?thesis by simp
qed

text \<open>Two rounds of the loop never try the same name.\<close>

lemma suffixed_inj: "suffixed base i = suffixed base j \<Longrightarrow> i = j"
proof -
  assume e: "suffixed base i = suffixed base j"
  obtain p where p: "suffixed base i = p @ CHR ''_'' # dec i"
    by (simp add: suffixed_def Let_def)
  obtain q where q: "suffixed base j = q @ CHR ''_'' # dec j"
    by (simp add: suffixed_def Let_def)
  from e p q have "p @ CHR ''_'' # dec i = q @ CHR ''_'' # dec j" by simp
  then have "dec i = dec j" by (rule last_us_unique) (rule dec_no_us)+
  then show "i = j" by (rule dec_inj)
qed

lemma finite_suffixed_used: "finite {j. suffixed base j \<in> set used}"
proof -
  have "inj (suffixed base)" by (rule injI) (rule suffixed_inj)
  then have "finite (suffixed base -` set used)" by (intro finite_vimageI) auto
  then show ?thesis by (simp add: vimage_def)
qed

text \<open>
  The loop ends: each round that goes on has found one more member of the finite set
  \<open>used\<close>.
\<close>

termination makeUnique_loop
proof (relation "measure (\<lambda>(used, base, i). card {j. i \<le> j \<and> suffixed base j \<in> set used})")
  show "wf (measure (\<lambda>(used, base, i). card {j. i \<le> j \<and> suffixed base j \<in> set used}))"
    by simp
next
  fix used :: "string list" and base :: string and i :: nat and x
  assume "x = suffixed base i" and "\<not> x \<notin> set used"
  then have mem: "suffixed base i \<in> set used" by simp
  have fin: "finite {j. i \<le> j \<and> suffixed base j \<in> set used}"
    by (rule finite_subset[OF _ finite_suffixed_used[of base used]]) auto
  have "i \<in> {j. i \<le> j \<and> suffixed base j \<in> set used}" using mem by simp
  moreover have "i \<notin> {j. i + 1 \<le> j \<and> suffixed base j \<in> set used}" by simp
  moreover have "{j. i + 1 \<le> j \<and> suffixed base j \<in> set used}
          \<subseteq> {j. i \<le> j \<and> suffixed base j \<in> set used}" by auto
  ultimately have "{j. i + 1 \<le> j \<and> suffixed base j \<in> set used}
          \<subset> {j. i \<le> j \<and> suffixed base j \<in> set used}" by blast
  then have "card {j. i + 1 \<le> j \<and> suffixed base j \<in> set used}
           < card {j. i \<le> j \<and> suffixed base j \<in> set used}"
    by (rule psubset_card_mono[OF fin])
  then show "((used, base, i + 1), (used, base, i))
      \<in> measure (\<lambda>(used, base, i). card {j. i \<le> j \<and> suffixed base j \<in> set used})"
    by simp
qed

declare makeUnique_loop.simps [simp del]

lemma makeUnique_loop_result:
  "\<exists>j. i \<le> j \<and> makeUnique_loop used base i = suffixed base j
       \<and> suffixed base j \<notin> set used
       \<and> (\<forall>k. i \<le> k \<and> k < j \<longrightarrow> suffixed base k \<in> set used)"
proof (induction used base i rule: makeUnique_loop.induct)
  case (1 used base i)
  show ?case
  proof (cases "suffixed base i \<in> set used")
    case False
    then have "makeUnique_loop used base i = suffixed base i"
      by (subst makeUnique_loop.simps) simp
    with False show ?thesis by (intro exI[of _ i]) auto
  next
    case True
    then have eq: "makeUnique_loop used base i = makeUnique_loop used base (i + 1)"
      by (subst makeUnique_loop.simps) simp
    from True "1.IH"[OF refl] obtain j where j: "i + 1 \<le> j"
      "makeUnique_loop used base (i + 1) = suffixed base j"
      "suffixed base j \<notin> set used"
      "\<forall>k. i + 1 \<le> k \<and> k < j \<longrightarrow> suffixed base k \<in> set used" by auto
    have "\<forall>k. i \<le> k \<and> k < j \<longrightarrow> suffixed base k \<in> set used"
    proof (intro allI impI)
      fix k assume "i \<le> k \<and> k < j"
      then show "suffixed base k \<in> set used" using True j(4) by (cases "k = i") auto
    qed
    with j eq show ?thesis by (intro exI[of _ j]) auto
  qed
qed

lemma makeUnique_loop_bound:
  assumes "makeUnique_loop used base i = suffixed base j" "i \<le> j"
    "\<forall>k. i \<le> k \<and> k < j \<longrightarrow> suffixed base k \<in> set used"
  shows "j \<le> i + length used"
proof -
  have sub: "suffixed base ` {i..<j} \<subseteq> set used" using assms(3) by auto
  have "inj_on (suffixed base) {i..<j}" by (rule inj_onI) (rule suffixed_inj)
  then have "card (suffixed base ` {i..<j}) = j - i" by (simp add: card_image)
  moreover have "card (suffixed base ` {i..<j}) \<le> card (set used)"
    by (rule card_mono[OF _ sub]) simp
  moreover have "card (set used) \<le> length used" by (rule card_length)
  ultimately show ?thesis by simp
qed

lemma suffixed_length:
  assumes "j < 10 ^ 10" "length base \<le> LIMIT"
  shows "length (suffixed base j) \<le> LIMIT"
proof -
  have "length (dec j) \<le> 10" using assms(1) by (intro dec_length) auto
  then show ?thesis using assms(2)
    by (auto simp: suffixed_def Let_def slice0_def LIMIT_def)
qed

lemma makeUnique_fresh: "makeUnique used cand \<notin> set used"
  using makeUnique_loop_result[of 1 used cand] by (auto simp: makeUnique_def)

lemma makeUnique_length:
  assumes "length used < 2 ^ 32" "length cand \<le> LIMIT"
  shows "length (makeUnique used cand) \<le> LIMIT"
proof (cases "cand \<in> set used")
  case False
  then show ?thesis using assms(2) by (simp add: makeUnique_def)
next
  case True
  obtain j where j: "1 \<le> j" "makeUnique_loop used cand 1 = suffixed cand j"
    "\<forall>k. 1 \<le> k \<and> k < j \<longrightarrow> suffixed cand k \<in> set used"
    using makeUnique_loop_result[of 1 used cand] by auto
  have "j \<le> 1 + length used" by (rule makeUnique_loop_bound[OF j(2) j(1) j(3)])
  with assms(1) have "j \<le> 2 ^ 32" by simp
  also have "(2::nat) ^ 32 < 10 ^ 10" by simp
  finally have "j < 10 ^ 10" .
  then have "length (suffixed cand j) \<le> LIMIT" using assms(2) by (rule suffixed_length)
  with True j(2) show ?thesis by (simp add: makeUnique_def)
qed

lemma makeUnique_short_of: "short_of n (makeUnique used (baseCandidate n))"
proof (cases "baseCandidate n \<in> set used")
  case False
  then show ?thesis by (simp add: makeUnique_def short_of_def)
next
  case True
  obtain j where "1 \<le> j"
    "makeUnique_loop used (baseCandidate n) 1 = suffixed (baseCandidate n) j"
    using makeUnique_loop_result[of 1 used "baseCandidate n"] by auto
  with True show ?thesis by (auto simp: makeUnique_def short_of_def)
qed

lemma map_of_obj_set:
  "map_of (obj_set m k v) = (if k = ''__proto__'' then map_of m else (map_of m)(k \<mapsto> v))"
  by (simp add: obj_set_def update_conv')

lemma table_inv_step:
  assumes inv: "table_inv used m" and len: "length used < 2 ^ 32"
  shows "table_inv (List.insert (makeUnique used (baseCandidate n)) used)
           (obj_set m n (makeUnique used (baseCandidate n)))"
proof -
  let ?s = "makeUnique used (baseCandidate n)"
  have fresh: "?s \<notin> set used" by (rule makeUnique_fresh)
  have l: "length ?s \<le> LIMIT"
    by (rule makeUnique_length[OF len baseCandidate_length])
  have so: "short_of n ?s" by (rule makeUnique_short_of)
  from inv have old: "\<And>orig short. map_of m orig = Some short \<Longrightarrow>
      short \<in> set used \<and> length short \<le> LIMIT \<and> short_of orig short"
    and oinj: "\<And>o1 o2 short. map_of m o1 = Some short \<Longrightarrow> map_of m o2 = Some short \<Longrightarrow> o1 = o2"
    by (auto simp: table_inv_def)
  show ?thesis
  proof (cases "n = ''__proto__''")
    case True
    then show ?thesis using old oinj
      unfolding table_inv_def map_of_obj_set by (auto simp del: One_nat_def)
  next
    case False
    have new_ne: "\<And>orig short. map_of m orig = Some short \<Longrightarrow> short \<noteq> ?s"
      using old fresh by blast
    show ?thesis
      unfolding table_inv_def map_of_obj_set using False l so old oinj new_ne
      by (auto simp del: One_nat_def split: if_splits; blast)
  qed
qed

lemma names_loop_inv:
  "table_inv used m \<Longrightarrow> length used + length ns < 2 ^ 32 \<Longrightarrow>
   \<exists>used'. table_inv used' (names_loop ns used m)"
proof (induction ns arbitrary: used m)
  case Nil
  then show ?case by auto
next
  case (Cons n ns)
  let ?s = "makeUnique used (baseCandidate n)"
  from Cons.prems have len: "length used < 2 ^ 32" by simp
  have step: "table_inv (List.insert ?s used) (obj_set m n ?s)"
    by (rule table_inv_step[OF Cons.prems(1) len])
  have "length (List.insert ?s used) \<le> Suc (length used)"
    by (simp add: List.insert_def)
  with Cons.prems(2) have "length (List.insert ?s used) + length ns < 2 ^ 32" by simp
  from Cons.IH[OF step this] show ?case by (simp add: Let_def)
qed

lemma names_loop_dom:
  "dom (map_of (names_loop ns used m)) = dom (map_of m) \<union> (set ns - {''__proto__''})"
  by (induction ns arbitrary: used m) (auto simp: Let_def map_of_obj_set split: if_splits)

lemma buildShortNameMap_table:
  assumes "length names < 2 ^ 32"
  shows "(\<forall>o1 o2 short. map_of (buildShortNameMap names) o1 = Some short
             \<and> map_of (buildShortNameMap names) o2 = Some short \<longrightarrow> o1 = o2)
       \<and> (\<forall>orig short. map_of (buildShortNameMap names) orig = Some short
             \<longrightarrow> length short \<le> 64 \<and> short_of orig short)
       \<and> dom (map_of (buildShortNameMap names)) = set names - {''__proto__''}"
proof -
  have "table_inv [] []" by (simp add: table_inv_def)
  moreover have "length ([] :: string list) + length names < 2 ^ 32" using assms by simp
  ultimately obtain used' where "table_inv used' (names_loop names [] [])"
    using names_loop_inv by blast
  then show ?thesis
    unfolding buildShortNameMap_def table_inv_def LIMIT_def
    by (simp add: names_loop_dom; blast)
qed

text \<open>
  Claim C2. For every array of tool names (an array holds fewer than \<open>2^32\<close> elements),
  the map that \<open>_buildShortNameMap\<close> returns is injective: no short name is stored
  under two originals. Every short name in it has at most 64 characters and is the base
  candidate of its original or that candidate with a suffix \<open>_n\<close>, \<open>n \<ge> 1\<close>, cut to fit.
  The map has an entry for every name given, except the name \<open>__proto__\<close>, which a plain
  object cannot hold as a key.
\<close>

theorem buildShortNameMap_injective_bounded:
  assumes "length names < 2 ^ 32"
  shows "(\<forall>o1 o2 short. map_of (buildShortNameMap names) o1 = Some short
             \<and> map_of (buildShortNameMap names) o2 = Some short \<longrightarrow> o1 = o2)
       \<and> (\<forall>orig short. map_of (buildShortNameMap names) orig = Some short
             \<longrightarrow> length short \<le> 64 \<and> short_of orig short)
       \<and> dom (map_of (buildShortNameMap names)) = set names - {''__proto__''}"
  using assms by (rule buildShortNameMap_table)

theorem buildShortNameMap_injective_bounded_witness:
  "length
     [''aaaaaaaaaaaaaaaaaaaaaaaaaaaaaaaaaaaaaaaaaaaaaaaaaaaaaaaaaaaaaaaax'',
      ''aaaaaaaaaaaaaaaaaaaaaaaaaaaaaaaaaaaaaaaaaaaaaaaaaaaaaaaaaaaaaaaay''] < (2::nat) ^ 32
   \<and> map_of (buildShortNameMap
     [''aaaaaaaaaaaaaaaaaaaaaaaaaaaaaaaaaaaaaaaaaaaaaaaaaaaaaaaaaaaaaaaax'',
      ''aaaaaaaaaaaaaaaaaaaaaaaaaaaaaaaaaaaaaaaaaaaaaaaaaaaaaaaaaaaaaaaay''])
       ''aaaaaaaaaaaaaaaaaaaaaaaaaaaaaaaaaaaaaaaaaaaaaaaaaaaaaaaaaaaaaaaax''
     = Some ''aaaaaaaaaaaaaaaaaaaaaaaaaaaaaaaaaaaaaaaaaaaaaaaaaaaaaaaaaaaaaaaa''
   \<and> map_of (buildShortNameMap
     [''aaaaaaaaaaaaaaaaaaaaaaaaaaaaaaaaaaaaaaaaaaaaaaaaaaaaaaaaaaaaaaaax'',
      ''aaaaaaaaaaaaaaaaaaaaaaaaaaaaaaaaaaaaaaaaaaaaaaaaaaaaaaaaaaaaaaaay''])
       ''aaaaaaaaaaaaaaaaaaaaaaaaaaaaaaaaaaaaaaaaaaaaaaaaaaaaaaaaaaaaaaaay''
     = Some ''aaaaaaaaaaaaaaaaaaaaaaaaaaaaaaaaaaaaaaaaaaaaaaaaaaaaaaaaaaaaaa_1''
   \<and> ''aaaaaaaaaaaaaaaaaaaaaaaaaaaaaaaaaaaaaaaaaaaaaaaaaaaaaaaaaaaaaaaa''
     \<noteq> ''aaaaaaaaaaaaaaaaaaaaaaaaaaaaaaaaaaaaaaaaaaaaaaaaaaaaaaaaaaaaaa_1''
   \<and> length ''aaaaaaaaaaaaaaaaaaaaaaaaaaaaaaaaaaaaaaaaaaaaaaaaaaaaaaaaaaaaaa_1'' \<le> 64"
proof -
  have h: "length
     [''aaaaaaaaaaaaaaaaaaaaaaaaaaaaaaaaaaaaaaaaaaaaaaaaaaaaaaaaaaaaaaaax'',
      ''aaaaaaaaaaaaaaaaaaaaaaaaaaaaaaaaaaaaaaaaaaaaaaaaaaaaaaaaaaaaaaaay''] < (2::nat) ^ 32" by simp
  have e: "buildShortNameMap
     [''aaaaaaaaaaaaaaaaaaaaaaaaaaaaaaaaaaaaaaaaaaaaaaaaaaaaaaaaaaaaaaaax'',
      ''aaaaaaaaaaaaaaaaaaaaaaaaaaaaaaaaaaaaaaaaaaaaaaaaaaaaaaaaaaaaaaaay'']
     = [(''aaaaaaaaaaaaaaaaaaaaaaaaaaaaaaaaaaaaaaaaaaaaaaaaaaaaaaaaaaaaaaaax'',
         ''aaaaaaaaaaaaaaaaaaaaaaaaaaaaaaaaaaaaaaaaaaaaaaaaaaaaaaaaaaaaaaaa''),
        (''aaaaaaaaaaaaaaaaaaaaaaaaaaaaaaaaaaaaaaaaaaaaaaaaaaaaaaaaaaaaaaaay'',
         ''aaaaaaaaaaaaaaaaaaaaaaaaaaaaaaaaaaaaaaaaaaaaaaaaaaaaaaaaaaaaaa_1'')]"
    by code_simp
  from buildShortNameMap_injective_bounded[OF h] h e show ?thesis by simp
qed

text \<open>
  The round trip holds for every name of the table that is not the name of a property
  every object inherits: the reverse map then decides the lookup alone. It holds in
  whatever order \<open>Object.entries\<close> lists the table, which puts keys that are array
  indices first.
\<close>

lemma entries_loop_lookup:
  "\<forall>o'. (o', s) \<in> set es \<longrightarrow> o' = orig \<Longrightarrow> s \<noteq> ''__proto__'' \<Longrightarrow>
   map_of (entries_loop es r) s
     = (if (orig, s) \<in> set es \<and> orig \<noteq> s then Some orig else map_of r s)"
proof (induction es arbitrary: r)
  case Nil
  then show ?case by simp
next
  case (Cons e es)
  obtain o' s' where e: "e = (o', s')" by (cases e)
  from Cons.prems(1) have rest: "\<forall>o'. (o', s) \<in> set es \<longrightarrow> o' = orig" by simp
  note ih = Cons.IH[OF rest Cons.prems(2)]
  show ?case
  proof (cases "s' = s")
    case True
    with e Cons.prems(1) have "o' = orig" by simp
    with True e ih Cons.prems(2) show ?thesis by (simp add: map_of_obj_set)
  next
    case False
    with e ih show ?thesis by (auto simp add: map_of_obj_set)
  qed
qed

lemma names_loop_distinct:
  "distinct (map fst m) \<Longrightarrow> distinct (map fst (names_loop ns used m))"
  by (induction ns arbitrary: used m) (simp_all add: Let_def obj_set_def distinct_update)

lemma restoreToolName_roundtrip_own:
  assumes len: "length names < 2 ^ 32" and ne: "[] \<notin> set names"
    and es: "set es = set (buildShortNameMap names)"
    and m: "map_of (buildShortNameMap names) orig = Some short"
    and own: "short \<notin> set Object_prototype_keys"
  shows "restoreToolName (entries_loop es []) short = Str orig"
proof -
  let ?m = "buildShortNameMap names"
  have d: "distinct (map fst ?m)"
    unfolding buildShortNameMap_def by (rule names_loop_distinct) simp
  have inj: "\<forall>o'. (o', short) \<in> set es \<longrightarrow> o' = orig"
  proof (intro allI impI)
    fix o' assume "(o', short) \<in> set es"
    with es d have "map_of ?m o' = Some short" by simp
    with m buildShortNameMap_table[OF len] show "o' = orig" by blast
  qed
  have np: "short \<noteq> ''__proto__''" using own by (auto simp: Object_prototype_keys_def)
  from m es have mem: "(orig, short) \<in> set es" by (auto dest: map_of_SomeD)
  have lk: "map_of (entries_loop es []) short = (if orig \<noteq> short then Some orig else None)"
    using entries_loop_lookup[OF inj np, of "[]"] mem by simp
  from m have "orig \<in> dom (map_of ?m)" by blast
  with buildShortNameMap_table[OF len] have "orig \<in> set names" by blast
  with ne have "orig \<noteq> []" by auto
  with lk own show ?thesis by (auto simp: restoreToolName_def obj_get_def)
qed

text \<open>
  Claim C3 fails on the code for a tool called \<open>constructor\<close>. The name is short, so it
  maps to itself and the reverse map stays empty; \<open>_restoreToolName\<close> then reads
  \<open>{}['constructor']\<close>, finds the function every object inherits, and returns it in
  place of the name.
\<close>

theorem restoreToolName_inherited_property: "buildShortNameMap [''constructor''] = [(''constructor'', ''constructor'')]
   \<and> buildReverseToolNameMap (buildShortNameMap [''constructor'']) = []
   \<and> restoreToolName (buildReverseToolNameMap (buildShortNameMap [''constructor'']))
        ''constructor'' = Inherited ''constructor''"
  by code_simp



section \<open>Proofs: finish reasons\<close>

text \<open>The reasons of the native API's enumeration, as the API spells them.\<close>

lemma mapFinishReason_enumerated:
  "map mapFinishReason [''FINISH_REASON_UNSPECIFIED'', ''STOP'', ''MAX_TOKENS'', ''SAFETY'',
      ''RECITATION'', ''LANGUAGE'', ''OTHER'', ''BLOCKLIST'', ''PROHIBITED_CONTENT'', ''SPII'',
      ''MALFORMED_FUNCTION_CALL'', ''IMAGE_SAFETY'', ''UNEXPECTED_TOOL_CALL'',
      ''TOO_MANY_TOOL_CALLS'']
   = [''stop'', ''stop'', ''length'', ''content_filter'', ''content_filter'', ''content_filter'',
      ''stop'', ''content_filter'', ''content_filter'', ''content_filter'', ''stop'',
      ''content_filter'', ''stop'', ''stop'']"
  by code_simp

text \<open>
  Claim C6, as amended. Both mappings are total into the four canonical reasons.
  \<open>_mapFinishReason\<close> compares without regard to case: \<open>max_tokens\<close> gives \<open>length\<close>, the
  seven content-policy reasons give \<open>content_filter\<close>, and every other string, recognised
  or not, gives \<open>stop\<close>. \<open>_mapResponseStatus\<close> gives \<open>stop\<close> for a missing status, for
  \<open>completed\<close> and for every status other than \<open>incomplete\<close>; for \<open>incomplete\<close> it gives
  \<open>content_filter\<close> when that is the reason and \<open>length\<close> for every other reason,
  \<open>max_output_tokens\<close>, unrecognised or missing.
\<close>

theorem finish_reason_mappings:
  "mapFinishReason r \<in> {''stop'', ''length'', ''tool_calls'', ''content_filter''}
   \<and> (toLowerCase r = ''max_tokens'' \<longrightarrow> mapFinishReason r = ''length'')
   \<and> (toLowerCase r \<in> {''safety'', ''recitation'', ''blocklist'', ''prohibited_content'',
          ''spii'', ''image_safety'', ''language''} \<longrightarrow> mapFinishReason r = ''content_filter'')
   \<and> (toLowerCase r \<notin> {''max_tokens'', ''safety'', ''recitation'', ''blocklist'',
          ''prohibited_content'', ''spii'', ''image_safety'', ''language''}
        \<longrightarrow> mapFinishReason r = ''stop'')
   \<and> mapResponseStatus resp \<in> {''stop'', ''length'', ''tool_calls'', ''content_filter''}
   \<and> (resp_status resp \<in> {None, Some [], Some ''completed''}
        \<longrightarrow> mapResponseStatus resp = ''stop'')
   \<and> (resp_status resp = Some ''incomplete''
          \<and> incomplete_reason resp = Some ''content_filter''
        \<longrightarrow> mapResponseStatus resp = ''content_filter'')
   \<and> (resp_status resp = Some ''incomplete''
          \<and> incomplete_reason resp \<noteq> Some ''content_filter''
        \<longrightarrow> mapResponseStatus resp = ''length'')
   \<and> (resp_status resp \<notin> {None, Some [], Some ''completed'', Some ''incomplete''}
        \<longrightarrow> mapResponseStatus resp = ''stop'')"
proof -
  have g: "mapFinishReason r \<in> {''stop'', ''length'', ''tool_calls'', ''content_filter''}"
    by (simp add: mapFinishReason_def Let_def)
  have g1: "toLowerCase r = ''max_tokens'' \<longrightarrow> mapFinishReason r = ''length''"
    by (simp add: mapFinishReason_def Let_def)
  have g2: "toLowerCase r \<in> {''safety'', ''recitation'', ''blocklist'', ''prohibited_content'',
          ''spii'', ''image_safety'', ''language''} \<longrightarrow> mapFinishReason r = ''content_filter''"
    by (auto simp add: mapFinishReason_def Let_def)
  have g3: "toLowerCase r \<notin> {''max_tokens'', ''safety'', ''recitation'', ''blocklist'',
          ''prohibited_content'', ''spii'', ''image_safety'', ''language''}
        \<longrightarrow> mapFinishReason r = ''stop''"
    by (simp add: mapFinishReason_def Let_def)
  have c: "mapResponseStatus resp \<in> {''stop'', ''length'', ''tool_calls'', ''content_filter''}"
    by (simp add: mapResponseStatus_def)
  have c1: "resp_status resp \<in> {None, Some [], Some ''completed''}
        \<longrightarrow> mapResponseStatus resp = ''stop''"
    by (auto simp add: mapResponseStatus_def truthy_def)
  have c2: "resp_status resp = Some ''incomplete''
          \<and> incomplete_reason resp = Some ''content_filter''
        \<longrightarrow> mapResponseStatus resp = ''content_filter''"
    by (simp add: mapResponseStatus_def truthy_def)
  have c3: "resp_status resp = Some ''incomplete''
          \<and> incomplete_reason resp \<noteq> Some ''content_filter''
        \<longrightarrow> mapResponseStatus resp = ''length''"
    by (simp add: mapResponseStatus_def truthy_def)
  have c4: "resp_status resp \<notin> {None, Some [], Some ''completed'', Some ''incomplete''}
        \<longrightarrow> mapResponseStatus resp = ''stop''"
    by (auto simp add: mapResponseStatus_def truthy_def split: option.splits)
  from g g1 g2 g3 c c1 c2 c3 c4 show ?thesis by blast
qed

theorem finish_reason_mappings_witness:
  "toLowerCase ''MAX_TOKENS'' = ''max_tokens''
   \<and> mapFinishReason ''MAX_TOKENS'' = ''length''
   \<and> toLowerCase ''Safety'' \<in> {''safety'', ''recitation'', ''blocklist'', ''prohibited_content'', ''spii'', ''image_safety'', ''language''}
   \<and> mapFinishReason ''Safety'' = ''content_filter''
   \<and> toLowerCase ''FINISH_REASON_UNSPECIFIED'' \<notin> {''max_tokens'', ''safety'', ''recitation'', ''blocklist'', ''prohibited_content'', ''spii'', ''image_safety'', ''language''}
   \<and> mapFinishReason ''FINISH_REASON_UNSPECIFIED'' = ''stop''
   \<and> mapResponseStatus \<lparr>resp_id = None, resp_created_at = None, resp_model = None, resp_status = None, incomplete_reason = None, resp_error = None, resp_usage = None\<rparr> = ''stop''
   \<and> mapResponseStatus \<lparr>resp_id = None, resp_created_at = None, resp_model = None, resp_status = Some ''incomplete'', incomplete_reason = Some ''content_filter'', resp_error = None, resp_usage = None\<rparr> = ''content_filter''
   \<and> mapResponseStatus \<lparr>resp_id = None, resp_created_at = None, resp_model = None, resp_status = Some ''incomplete'', incomplete_reason = Some ''max_output_tokens'', resp_error = None, resp_usage = None\<rparr> = ''length''
   \<and> mapResponseStatus \<lparr>resp_id = None, resp_created_at = None, resp_model = None, resp_status = Some ''cancelled'', incomplete_reason = None, resp_error = None, resp_usage = None\<rparr> = ''stop''"
proof -
  have a1: "toLowerCase ''MAX_TOKENS'' = ''max_tokens''" by code_simp
  have a2: "toLowerCase ''Safety'' \<in> {''safety'', ''recitation'', ''blocklist'', ''prohibited_content'', ''spii'', ''image_safety'', ''language''}" by code_simp
  have a3: "toLowerCase ''FINISH_REASON_UNSPECIFIED'' \<notin> {''max_tokens'', ''safety'', ''recitation'', ''blocklist'', ''prohibited_content'', ''spii'', ''image_safety'', ''language''}" by code_simp
  have b1: "mapFinishReason ''MAX_TOKENS'' = ''length''"
    using finish_reason_mappings[of "''MAX_TOKENS''" "\<lparr>resp_id = None, resp_created_at = None, resp_model = None, resp_status = None, incomplete_reason = None, resp_error = None, resp_usage = None\<rparr>"] a1 by blast
  have b2: "mapFinishReason ''Safety'' = ''content_filter''"
    using finish_reason_mappings[of "''Safety''" "\<lparr>resp_id = None, resp_created_at = None, resp_model = None, resp_status = Some ''incomplete'', incomplete_reason = Some ''content_filter'', resp_error = None, resp_usage = None\<rparr>"] a2 by blast
  have b3: "mapFinishReason ''FINISH_REASON_UNSPECIFIED'' = ''stop''"
    using finish_reason_mappings[of "''FINISH_REASON_UNSPECIFIED''" "\<lparr>resp_id = None, resp_created_at = None, resp_model = None, resp_status = Some ''incomplete'', incomplete_reason = Some ''max_output_tokens'', resp_error = None, resp_usage = None\<rparr>"] a3 by blast
  have c0: "mapResponseStatus \<lparr>resp_id = None, resp_created_at = None, resp_model = None, resp_status = None, incomplete_reason = None, resp_error = None, resp_usage = None\<rparr> = ''stop''"
    using finish_reason_mappings[of "''MAX_TOKENS''" "\<lparr>resp_id = None, resp_created_at = None, resp_model = None, resp_status = None, incomplete_reason = None, resp_error = None, resp_usage = None\<rparr>"] by simp
  have c1: "mapResponseStatus \<lparr>resp_id = None, resp_created_at = None, resp_model = None, resp_status = Some ''incomplete'', incomplete_reason = Some ''content_filter'', resp_error = None, resp_usage = None\<rparr> = ''content_filter''"
    using finish_reason_mappings[of "''Safety''" "\<lparr>resp_id = None, resp_created_at = None, resp_model = None, resp_status = Some ''incomplete'', incomplete_reason = Some ''content_filter'', resp_error = None, resp_usage = None\<rparr>"] by simp
  have c2: "mapResponseStatus \<lparr>resp_id = None, resp_created_at = None, resp_model = None, resp_status = Some ''incomplete'', incomplete_reason = Some ''max_output_tokens'', resp_error = None, resp_usage = None\<rparr> = ''length''"
    using finish_reason_mappings[of "''Safety''" "\<lparr>resp_id = None, resp_created_at = None, resp_model = None, resp_status = Some ''incomplete'', incomplete_reason = Some ''max_output_tokens'', resp_error = None, resp_usage = None\<rparr>"] by simp
  have c3: "mapResponseStatus \<lparr>resp_id = None, resp_created_at = None, resp_model = None, resp_status = Some ''cancelled'', incomplete_reason = None, resp_error = None, resp_usage = None\<rparr> = ''stop''"
    using finish_reason_mappings[of "''Safety''" "\<lparr>resp_id = None, resp_created_at = None, resp_model = None, resp_status = Some ''cancelled'', incomplete_reason = None, resp_error = None, resp_usage = None\<rparr>"] by simp
  from a1 a2 a3 b1 b2 b3 c0 c1 c2 c3 show ?thesis by blast
qed

text \<open>
  Claim C6 as stated fails: a response of status \<open>incomplete\<close> whose reason is missing or
  not recognised maps to \<open>length\<close>, not to \<open>stop\<close>.
\<close>

theorem finish_reason_mappings_counterexample: "mapResponseStatus \<lparr>resp_id = None, resp_created_at = None, resp_model = None,
      resp_status = Some ''incomplete'', incomplete_reason = None, resp_error = None,
      resp_usage = None\<rparr> = ''length''
  \<and> mapResponseStatus \<lparr>resp_id = None, resp_created_at = None, resp_model = None,
      resp_status = Some ''incomplete'', incomplete_reason = Some ''model_overloaded'', resp_error = None,
      resp_usage = None\<rparr> = ''length''"
  by code_simp


section \<open>Proofs: the Gemini converter\<close>

lemma roles_step_Nil: "roles_step b [] b"
  by (simp add: roles_step_def)

lemma roles_step_append:
  assumes "roles_step b r1 b1" "roles_step b1 r2 b2"
  shows "roles_step b (r1 @ r2) b2"
proof (cases "r1 = []")
  case True
  with assms show ?thesis by (simp add: roles_step_def)
next
  case False
  with assms(1) have b1: "b1" by (simp add: roles_step_def)
  with assms(2) have r2: "r2 = replicate (length r2) None" and b2: "b2"
    by (simp_all add: roles_step_def)
  show ?thesis
  proof (cases b)
    case True
    with assms(1) have "r1 = replicate (length r1) None" by (simp add: roles_step_def)
    with r2 have "r1 @ r2 = replicate (length (r1 @ r2)) None"
      by (metis length_append replicate_add)
    with True b2 show ?thesis by (simp add: roles_step_def)
  next
    case nb: False
    with assms(1) False have r1: "r1 = Some ''assistant'' # replicate (length r1 - 1) None"
      by (simp add: roles_step_def)
    from False have l: "length (r1 @ r2) - 1 = (length r1 - 1) + length r2"
      by (cases r1) auto
    have "r1 @ r2 = Some ''assistant'' # replicate (length (r1 @ r2) - 1) None"
      unfolding l replicate_add using r1 r2 by (metis append_Cons)
    with nb False b2 show ?thesis by (simp add: roles_step_def)
  qed
qed

lemma role_flags_append: "role_flags (a @ b) = role_flags a @ role_flags b"
  by (simp add: role_flags_def)

lemma terminal_count_append: "terminal_count k (a @ b) = terminal_count k a + terminal_count k b"
  by (simp add: terminal_count_def)

text \<open>What a part yields: nothing, or one chunk with a delta.\<close>

lemma convert_part_shape:
  "(convert_part now model k p st = ([], st))
   \<or> (\<exists>c st'. convert_part now model k p st = ([c], st')
        \<and> finish_reason c = None \<and> chunk_usage c = None \<and> choice_index c = k
        \<and> choice_delta c \<noteq> empty_delta
        \<and> role (choice_delta c) = (if roleSent st then None else Some ''assistant'')
        \<and> roleSent st')"
  by (auto simp: convert_part_def Let_def injectRole_def gemini_makeChunk_def empty_delta_def
      split: option.splits)

lemma convert_part_roles:
  "roles_step (roleSent st) (role_flags (fst (convert_part now model k p st)))
     (roleSent (snd (convert_part now model k p st)))"
  using convert_part_shape[of now model k p st]
  by (auto simp: roles_step_def role_flags_def)

lemma convert_part_plain:
  "c \<in> set (fst (convert_part now model k p st)) \<Longrightarrow>
   finish_reason c = None \<and> chunk_usage c = None"
  using convert_part_shape[of now model k p st] by auto

lemma convert_parts_roles:
  "roles_step (roleSent st) (role_flags (fst (convert_parts now model k ps st)))
     (roleSent (snd (convert_parts now model k ps st)))"
proof (induction ps arbitrary: st)
  case Nil
  show ?case by (simp add: role_flags_def roles_step_Nil)
next
  case (Cons p ps)
  obtain r1 st1 where p: "convert_part now model k p st = (r1, st1)"
    by (cases "convert_part now model k p st")
  obtain r2 st2 where ps: "convert_parts now model k ps st1 = (r2, st2)"
    by (cases "convert_parts now model k ps st1")
  from convert_part_roles[of st now model k p] p
  have a: "roles_step (roleSent st) (role_flags r1) (roleSent st1)" by simp
  from Cons.IH[of st1] ps
  have b: "roles_step (roleSent st1) (role_flags r2) (roleSent st2)" by simp
  from roles_step_append[OF a b] p ps show ?case by (simp add: role_flags_append)
qed

lemma convert_parts_plain:
  "c \<in> set (fst (convert_parts now model k ps st)) \<Longrightarrow>
   finish_reason c = None \<and> chunk_usage c = None"
proof (induction ps arbitrary: st)
  case Nil
  then show ?case by simp
next
  case (Cons p ps)
  obtain r1 st1 where p: "convert_part now model k p st = (r1, st1)"
    by (cases "convert_part now model k p st")
  obtain r2 st2 where ps: "convert_parts now model k ps st1 = (r2, st2)"
    by (cases "convert_parts now model k ps st1")
  from Cons.prems p ps have "c \<in> set r1 \<or> c \<in> set r2" by simp
  then show ?case
  proof
    assume "c \<in> set r1"
    with p convert_part_plain[of c now model k p st] show ?thesis by simp
  next
    assume "c \<in> set r2"
    with ps Cons.IH[of st1] show ?thesis by simp
  qed
qed

lemma convert_parts_terminal: "terminal_count j (fst (convert_parts now model k ps st)) = 0"
  using convert_parts_plain[of _ now model k ps st]
  by (auto simp: terminal_count_def filter_empty_conv)

lemma convert_candidate_roles:
  "roles_step (roleSent st) (role_flags (fst (convert_candidate now model meta i cand st)))
     (roleSent (snd (convert_candidate now model meta i cand st)))"
proof -
  let ?k = "case cand_index cand of Some k \<Rightarrow> k | None \<Rightarrow> int i"
  let ?ps = "case content_parts cand of Some ps \<Rightarrow> ps | None \<Rightarrow> []"
  obtain r st1 where ps: "convert_parts now model ?k ?ps st = (r, st1)"
    by (cases "convert_parts now model ?k ?ps st")
  from convert_parts_roles[of st now model ?k ?ps] ps
  have "roles_step (roleSent st) (role_flags r) (roleSent st1)" by simp
  with ps show ?thesis
    by (simp add: convert_candidate_def Let_def role_flags_def gemini_makeChunk_def)
qed

lemma convert_candidate_terminal:
  "terminal_count k (fst (convert_candidate now model meta i cand st))
   = (if truthy (finishReason cand)
         \<and> (case cand_index cand of Some j \<Rightarrow> j | None \<Rightarrow> int i) = k then 1 else 0)"
proof -
  let ?k = "case cand_index cand of Some k \<Rightarrow> k | None \<Rightarrow> int i"
  let ?ps = "case content_parts cand of Some ps \<Rightarrow> ps | None \<Rightarrow> []"
  obtain r st1 where ps: "convert_parts now model ?k ?ps st = (r, st1)"
    by (cases "convert_parts now model ?k ?ps st")
  from convert_parts_terminal[of k now model ?k ?ps st] ps
  have "terminal_count k r = 0" by simp
  with ps show ?thesis
    by (simp add: convert_candidate_def Let_def terminal_count_append)
       (simp add: terminal_count_def)
qed

lemma convert_candidate_usage:
  "c \<in> set (fst (convert_candidate now model meta i cand st)) \<Longrightarrow>
   chunk_usage c = (if finish_reason c \<noteq> None then gemini_mapUsage meta else None)"
proof -
  let ?k = "case cand_index cand of Some k \<Rightarrow> k | None \<Rightarrow> int i"
  let ?ps = "case content_parts cand of Some ps \<Rightarrow> ps | None \<Rightarrow> []"
  assume c: "c \<in> set (fst (convert_candidate now model meta i cand st))"
  obtain r st1 where ps: "convert_parts now model ?k ?ps st = (r, st1)"
    by (cases "convert_parts now model ?k ?ps st")
  have plain: "\<And>x. x \<in> set r \<Longrightarrow> finish_reason x = None \<and> chunk_usage x = None"
    using convert_parts_plain[of _ now model ?k ?ps st] ps by simp
  from c ps show ?thesis
    by (auto simp: convert_candidate_def Let_def dest: plain split: if_splits)
qed

lemma convert_candidates_roles:
  "roles_step (roleSent st) (role_flags (fst (convert_candidates now model meta i cs st)))
     (roleSent (snd (convert_candidates now model meta i cs st)))"
proof (induction cs arbitrary: st i)
  case Nil
  show ?case by (simp add: role_flags_def roles_step_Nil)
next
  case (Cons c cs)
  obtain r1 st1 where c: "convert_candidate now model meta i c st = (r1, st1)"
    by (cases "convert_candidate now model meta i c st")
  obtain r2 st2 where cs: "convert_candidates now model meta (i + 1) cs st1 = (r2, st2)"
    by (cases "convert_candidates now model meta (i + 1) cs st1")
  from convert_candidate_roles[of st now model meta i c] c
  have a: "roles_step (roleSent st) (role_flags r1) (roleSent st1)" by simp
  from Cons.IH[of st1 "i + 1"] cs
  have b: "roles_step (roleSent st1) (role_flags r2) (roleSent st2)" by simp
  from roles_step_append[OF a b] c cs show ?case by (simp add: role_flags_append)
qed

lemma convert_candidates_terminal:
  "terminal_count k (fst (convert_candidates now model meta i cs st)) = finishing_entries k i cs"
proof (induction cs arbitrary: st i)
  case Nil
  show ?case by (simp add: terminal_count_def)
next
  case (Cons c cs)
  obtain r1 st1 where c: "convert_candidate now model meta i c st = (r1, st1)"
    by (cases "convert_candidate now model meta i c st")
  obtain r2 st2 where cs: "convert_candidates now model meta (i + 1) cs st1 = (r2, st2)"
    by (cases "convert_candidates now model meta (i + 1) cs st1")
  from convert_candidate_terminal[of k now model meta i c st] c
  have a: "terminal_count k r1 = (if truthy (finishReason c)
         \<and> (case cand_index c of Some j \<Rightarrow> j | None \<Rightarrow> int i) = k then 1 else 0)" by simp
  from Cons.IH[of "i + 1" st1] cs
  have b: "terminal_count k r2 = finishing_entries k (i + 1) cs" by simp
  from a b c cs show ?case by (simp add: terminal_count_append)
qed

lemma convert_candidates_usage:
  "c \<in> set (fst (convert_candidates now model meta i cs st)) \<Longrightarrow>
   chunk_usage c = (if finish_reason c \<noteq> None then gemini_mapUsage meta else None)"
proof (induction cs arbitrary: st i)
  case Nil
  then show ?case by simp
next
  case (Cons x cs)
  obtain r1 st1 where x: "convert_candidate now model meta i x st = (r1, st1)"
    by (cases "convert_candidate now model meta i x st")
  obtain r2 st2 where cs: "convert_candidates now model meta (i + 1) cs st1 = (r2, st2)"
    by (cases "convert_candidates now model meta (i + 1) cs st1")
  from Cons.prems x cs have "c \<in> set r1 \<or> c \<in> set r2" by simp
  then show ?case
  proof
    assume "c \<in> set r1"
    with x convert_candidate_usage[of c now model meta i x st] show ?thesis by simp
  next
    assume "c \<in> set r2"
    with cs Cons.IH[where st = st1 and i = "i + 1"] show ?thesis by simp
  qed
qed

lemma update_metadata_roleSent: "roleSent (update_metadata date_ms now data st) = roleSent st"
  by (simp add: update_metadata_def Let_def)

lemma convert_chunk_roles:
  "roles_step (roleSent st) (role_flags (fst (convertGeminiChunkToOpenAI date_ms now f model st)))
     (roleSent (snd (convertGeminiChunkToOpenAI date_ms now f model st)))"
  using convert_candidates_roles[of "update_metadata date_ms now (unwrap f) st"]
  by (simp add: convertGeminiChunkToOpenAI_def Let_def update_metadata_roleSent role_flags_def
      gemini_makeChunk_def roles_step_Nil)

lemma convert_chunk_terminal:
  "terminal_count k (fst (convertGeminiChunkToOpenAI date_ms now f model st))
   = frame_terminals k f"
  by (simp add: convertGeminiChunkToOpenAI_def frame_terminals_def Let_def
      convert_candidates_terminal)
     (simp add: terminal_count_def gemini_makeChunk_def)

lemma convert_chunk_usage:
  "c \<in> set (fst (convertGeminiChunkToOpenAI date_ms now f model st)) \<Longrightarrow>
   chunk_usage c = (if finish_reason c \<noteq> None then gemini_mapUsage (usageMetadata (unwrap f))
                    else None)"
  using convert_candidates_usage[of c now model "usageMetadata (unwrap f)" 0]
  by (auto simp: convertGeminiChunkToOpenAI_def Let_def split: if_splits)

lemma convert_frames_roles:
  "roles_step (roleSent st) (role_flags (fst (convert_frames date_ms model fs st)))
     (roleSent (snd (convert_frames date_ms model fs st)))"
proof (induction fs arbitrary: st)
  case Nil
  show ?case by (simp add: role_flags_def roles_step_Nil)
next
  case (Cons x fs)
  obtain now f where x: "x = (now, f)" by (cases x)
  obtain r1 st1 where c: "convertGeminiChunkToOpenAI date_ms now f model st = (r1, st1)"
    by (cases "convertGeminiChunkToOpenAI date_ms now f model st")
  obtain r2 st2 where cs: "convert_frames date_ms model fs st1 = (r2, st2)"
    by (cases "convert_frames date_ms model fs st1")
  from convert_chunk_roles[of st date_ms now f model] c
  have a: "roles_step (roleSent st) (role_flags r1) (roleSent st1)" by simp
  from Cons.IH[of st1] cs
  have b: "roles_step (roleSent st1) (role_flags r2) (roleSent st2)" by simp
  from roles_step_append[OF a b] x c cs show ?case by (simp add: role_flags_append)
qed

lemma convert_frames_terminal:
  "terminal_count k (fst (convert_frames date_ms model fs st))
   = sum_list (map (\<lambda>(now, f). frame_terminals k f) fs)"
proof (induction fs arbitrary: st)
  case Nil
  show ?case by (simp add: terminal_count_def)
next
  case (Cons x fs)
  obtain now f where x: "x = (now, f)" by (cases x)
  obtain r1 st1 where c: "convertGeminiChunkToOpenAI date_ms now f model st = (r1, st1)"
    by (cases "convertGeminiChunkToOpenAI date_ms now f model st")
  obtain r2 st2 where cs: "convert_frames date_ms model fs st1 = (r2, st2)"
    by (cases "convert_frames date_ms model fs st1")
  from convert_chunk_terminal[of k date_ms now f model st] c
  have a: "terminal_count k r1 = frame_terminals k f" by simp
  from Cons.IH[of st1] cs
  have b: "terminal_count k r2 = sum_list (map (\<lambda>(now, f). frame_terminals k f) fs)" by simp
  from a b x c cs show ?case by (simp add: terminal_count_append)
qed

text \<open>From the roles of the chunks that carry a delta to the count over all chunks.\<close>

lemma roles_step_first_only: "roles_step False rs b' \<Longrightarrow> first_only rs"
  by (auto simp: roles_step_def first_only_def split: if_splits)

lemma first_only_count: "first_only rs \<Longrightarrow> length (filter (\<lambda>r. r \<noteq> None) rs) \<le> 1"
proof -
  assume "first_only rs"
  then consider "rs = []" | "rs = Some ''assistant'' # replicate (length rs - 1) None"
    by (auto simp: first_only_def)
  then show ?thesis
  proof cases
    case 1
    then show ?thesis by simp
  next
    case 2
    have "filter (\<lambda>r. r \<noteq> None) (replicate (length rs - 1) (None :: string option)) = []"
      by simp
    then have "length (filter (\<lambda>r. r \<noteq> None)
        (Some ''assistant'' # replicate (length rs - 1) None)) = 1" by simp
    with 2 show ?thesis by simp
  qed
qed

lemma role_count_flags: "role_count cs = length (filter (\<lambda>r. r \<noteq> None) (role_flags cs))"
proof -
  have "filter (\<lambda>c. role (choice_delta c) \<noteq> None) cs
      = filter (\<lambda>c. role (choice_delta c) \<noteq> None) (filter (\<lambda>c. choice_delta c \<noteq> empty_delta) cs)"
    by (induction cs) (auto simp: empty_delta_def)
  then show ?thesis
    by (simp add: role_count_def role_flags_def filter_map comp_def)
qed

lemma gemini_roles:
  "first_only (role_flags (fst (convert_frames date_ms model fs (gemini_createStreamState n0))))
   \<and> role_count (fst (convert_frames date_ms model fs (gemini_createStreamState n0))) \<le> 1"
proof -
  have "roleSent (gemini_createStreamState n0) = False"
    by (simp add: gemini_createStreamState_def)
  with convert_frames_roles[of "gemini_createStreamState n0" date_ms model fs]
  have fo: "first_only (role_flags (fst (convert_frames date_ms model fs (gemini_createStreamState n0))))"
    by (auto intro: roles_step_first_only)
  from first_only_count[OF fo]
  have "role_count (fst (convert_frames date_ms model fs (gemini_createStreamState n0))) \<le> 1"
    by (simp only: role_count_flags)
  with fo show ?thesis by blast
qed

text \<open>
  Claim C4, as amended. Over any stream of frames, from any state, the number of chunks
  with a non-null \<open>finish_reason\<close> that a choice receives is the number of frame entries
  that finish it: one for every candidate entry that carries a finish reason and the
  choice's index, and, for choice \<open>0\<close>, one for every frame that has usage metadata and no
  candidates. The converter keeps no record of the choices it has finished, so a choice
  receives exactly one such chunk when exactly one entry of the stream finishes it.
\<close>

theorem terminal_chunks_per_choice:
  "terminal_count k (fst (convert_frames date_ms model fs st))
   = sum_list (map (\<lambda>(now, f). frame_terminals k f) fs)"
  by (rule convert_frames_terminal)

theorem terminal_chunks_per_choice_witness:
  "terminal_count 0 (fst (convert_frames no_date ''gemini-pro''
       [(1, hi_frame), (2, stop_frame)] (gemini_createStreamState 0))) = 1
   \<and> sum_list (map (\<lambda>(now, f). frame_terminals 0 f) [(1, hi_frame), (2 :: nat, stop_frame)]) = 1"
proof -
  have "sum_list (map (\<lambda>(now, f). frame_terminals 0 f) [(1, hi_frame), (2 :: nat, stop_frame)]) = 1"
    by code_simp
  with terminal_chunks_per_choice[of 0 no_date "''gemini-pro''"
      "[(1, hi_frame), (2, stop_frame)]" "gemini_createStreamState 0"]
  show ?thesis by simp
qed

text \<open>
  Claim C4 as stated fails: a frame that finishes candidate \<open>0\<close>, followed by a frame of
  usage metadata alone, gives choice \<open>0\<close> two chunks with a non-null \<open>finish_reason\<close>.
\<close>

theorem terminal_chunks_per_choice_counterexample:
  "map (\<lambda>c. (choice_index c, finish_reason c))
     (fst (convert_frames no_date ''gemini-pro''
        [(1, stop_frame), (2, usage_only_frame)] (gemini_createStreamState 0)))
   = [(0, Some ''stop''), (0, Some ''stop'')]"
  by code_simp

lemma mapFinishReason_STOP: "mapFinishReason ''STOP'' = ''stop''"
  by code_simp

text \<open>
  Claim C9. From a fresh state, the frame with the text \<open>Hi\<close> followed by the frame with
  the finish reason \<open>STOP\<close> and the usage \<open>5, 2, 7\<close> yields exactly two chunks: the first
  with the delta \<open>{role: assistant, content: Hi}\<close> and no finish reason, the second with
  the finish reason \<open>stop\<close> and the usage \<open>{prompt_tokens: 5, completion_tokens: 2,
  total_tokens: 7}\<close>. This holds for every model name, date parser and clock reading.
\<close>

theorem gemini_hi_stop_scenario:
  "fst (convert_frames date_ms model [(n1, hi_frame), (n2, stop_frame)]
          (gemini_createStreamState n0))
   = [\<lparr>chunk_id = ''chatcmpl-'' @ dec n0, chunk_object = ''chat.completion.chunk'',
       chunk_created = int (n0 div 1000), chunk_model = model, choice_index = 0,
       choice_delta = \<lparr>role = Some ''assistant'', content = Some ''Hi'',
                       reasoning_content = None, tool_calls = None, images = None\<rparr>,
       finish_reason = None, chunk_usage = None\<rparr>,
      \<lparr>chunk_id = ''chatcmpl-'' @ dec n0, chunk_object = ''chat.completion.chunk'',
       chunk_created = int (n0 div 1000), chunk_model = model, choice_index = 0,
       choice_delta = \<lparr>role = None, content = None, reasoning_content = None,
                       tool_calls = None, images = None\<rparr>,
       finish_reason = Some ''stop'',
       chunk_usage = Some \<lparr>prompt_tokens = 5, completion_tokens = 2, total_tokens = 7,
                            completion_tokens_details = None,
                            prompt_tokens_details = None\<rparr>\<rparr>]"
  by (simp add: hi_frame_def stop_frame_def gemini_createStreamState_def
      convertGeminiChunkToOpenAI_def unwrap_def gemini_data.truncate_def update_metadata_def
      truthy_def convert_candidate_def convert_part_def signature_only_def injectRole_def
      gemini_makeChunk_def or_else_def empty_delta_def gemini_mapUsage_def num_or0_def
      positive_def mapFinishReason_STOP Let_def)

theorem gemini_hi_stop_scenario_witness:
  "map (\<lambda>c. (role (choice_delta c), content (choice_delta c), finish_reason c, chunk_usage c))
     (fst (convert_frames no_date ''gemini-pro'' [(1, hi_frame), (2, stop_frame)]
             (gemini_createStreamState 0)))
   = [(Some ''assistant'', Some ''Hi'', None, None),
      (None, None, Some ''stop'',
       Some \<lparr>prompt_tokens = 5, completion_tokens = 2, total_tokens = 7,
             completion_tokens_details = None, prompt_tokens_details = None\<rparr>)]"
  using gemini_hi_stop_scenario[of no_date "''gemini-pro''" 1 2 0] by simp

text \<open>
  Claim C10. \<open>_mapUsage\<close> sets \<open>completion_tokens\<close> to the candidates' count plus the
  thoughts' count, a missing count taken as \<open>0\<close>, and copies \<open>total_tokens\<close> from
  \<open>totalTokenCount\<close>. The complete-response path attaches it to the response, the
  streaming path to every chunk with a finish reason and to no other chunk. There is
  usage metadata whose converted \<open>prompt_tokens\<close> and \<open>completion_tokens\<close> do not add
  up to \<open>total_tokens\<close>.
\<close>

theorem gemini_usage_accounting:
  "gemini_mapUsage (Some m)
     = Some \<lparr>prompt_tokens = num_or0 (promptTokenCount m),
             completion_tokens = num_or0 (candidatesTokenCount m)
                                   + num_or0 (thoughtsTokenCount m),
             total_tokens = num_or0 (totalTokenCount m),
             completion_tokens_details = positive (thoughtsTokenCount m),
             prompt_tokens_details = positive (cachedContentTokenCount m)\<rparr>
   \<and> num_or0 None = 0 \<and> num_or0 (Some v) = v
   \<and> cmpl_usage (gemini_convertResponse date_ms now f model)
       = gemini_mapUsage (usageMetadata (unwrap f))
   \<and> (\<forall>c\<in>set (fst (convertGeminiChunkToOpenAI date_ms now f model st)).
         chunk_usage c = (if finish_reason c \<noteq> None
                          then gemini_mapUsage (usageMetadata (unwrap f)) else None))
   \<and> (\<exists>m' u. gemini_mapUsage (Some m') = Some u
         \<and> prompt_tokens u + completion_tokens u \<noteq> total_tokens u)"
proof -
  have a: "gemini_mapUsage (Some m)
     = Some \<lparr>prompt_tokens = num_or0 (promptTokenCount m),
             completion_tokens = num_or0 (candidatesTokenCount m)
                                   + num_or0 (thoughtsTokenCount m),
             total_tokens = num_or0 (totalTokenCount m),
             completion_tokens_details = positive (thoughtsTokenCount m),
             prompt_tokens_details = positive (cachedContentTokenCount m)\<rparr>"
    by (simp add: gemini_mapUsage_def Let_def)
  have b: "num_or0 None = 0 \<and> num_or0 (Some v) = v" by (simp add: num_or0_def)
  have c: "cmpl_usage (gemini_convertResponse date_ms now f model)
       = gemini_mapUsage (usageMetadata (unwrap f))"
    by (simp add: gemini_convertResponse_def Let_def)
  have d: "\<forall>c\<in>set (fst (convertGeminiChunkToOpenAI date_ms now f model st)).
         chunk_usage c = (if finish_reason c \<noteq> None
                          then gemini_mapUsage (usageMetadata (unwrap f)) else None)"
    using convert_chunk_usage[of _ date_ms now f model st] by blast
  let ?m = "\<lparr>promptTokenCount = Some 5, candidatesTokenCount = Some 2,
         thoughtsTokenCount = Some 3, totalTokenCount = Some 7,
         cachedContentTokenCount = None\<rparr>"
  have "\<exists>u. gemini_mapUsage (Some ?m) = Some u
         \<and> prompt_tokens u + completion_tokens u \<noteq> total_tokens u"
    by (simp add: gemini_mapUsage_def Let_def num_or0_def)
  then have e: "\<exists>m' u. gemini_mapUsage (Some m') = Some u
         \<and> prompt_tokens u + completion_tokens u \<noteq> total_tokens u" by blast
  from a b c d e show ?thesis by blast
qed

theorem gemini_usage_accounting_witness:
  "gemini_mapUsage (usageMetadata (unwrap usage_only_frame))
     = Some \<lparr>prompt_tokens = 5, completion_tokens = 5, total_tokens = 7,
             completion_tokens_details = Some 3, prompt_tokens_details = None\<rparr>
   \<and> cmpl_usage (gemini_convertResponse no_date 0 usage_only_frame ''gemini-pro'')
       = Some \<lparr>prompt_tokens = 5, completion_tokens = 5, total_tokens = 7,
               completion_tokens_details = Some 3, prompt_tokens_details = None\<rparr>
   \<and> map chunk_usage (fst (convertGeminiChunkToOpenAI no_date 0 usage_only_frame ''gemini-pro''
                              (gemini_createStreamState 0)))
       = [Some \<lparr>prompt_tokens = 5, completion_tokens = 5, total_tokens = 7,
                completion_tokens_details = Some 3, prompt_tokens_details = None\<rparr>]"
proof -
  have a: "gemini_mapUsage (usageMetadata (unwrap usage_only_frame))
     = Some \<lparr>prompt_tokens = 5, completion_tokens = 5, total_tokens = 7,
             completion_tokens_details = Some 3, prompt_tokens_details = None\<rparr>"
    by code_simp
  have b: "map finish_reason
      (fst (convertGeminiChunkToOpenAI no_date 0 usage_only_frame ''gemini-pro''
                              (gemini_createStreamState 0))) = [Some ''stop'']"
    by code_simp
  note t = gemini_usage_accounting[of _ _ no_date 0 usage_only_frame "''gemini-pro''"
      "gemini_createStreamState 0"]
  from t have c: "cmpl_usage (gemini_convertResponse no_date 0 usage_only_frame ''gemini-pro'')
       = gemini_mapUsage (usageMetadata (unwrap usage_only_frame))" by blast
  from t have d: "\<forall>c\<in>set (fst (convertGeminiChunkToOpenAI no_date 0 usage_only_frame
          ''gemini-pro'' (gemini_createStreamState 0))).
         chunk_usage c = (if finish_reason c \<noteq> None
                          then gemini_mapUsage (usageMetadata (unwrap usage_only_frame))
                          else None)" by blast
  obtain x where x: "fst (convertGeminiChunkToOpenAI no_date 0 usage_only_frame ''gemini-pro''
                              (gemini_createStreamState 0)) = [x]"
    using b by (cases "fst (convertGeminiChunkToOpenAI no_date 0 usage_only_frame ''gemini-pro''
                              (gemini_createStreamState 0))") auto
  with b d have "chunk_usage x = gemini_mapUsage (usageMetadata (unwrap usage_only_frame))"
    by simp
  with x a c show ?thesis by simp
qed

section \<open>Proofs: the Codex converter\<close>

lemma chunks_of_append: "chunks_of (a @ b) = chunks_of a @ chunks_of b"
  by (induction a rule: chunks_of.induct) auto

lemma announced_slots_append: "announced_slots (a @ b) = announced_slots a @ announced_slots b"
  by (simp add: announced_slots_def chunks_of_append)

lemma consecutive_from_append:
  "consecutive_from a xs \<Longrightarrow> consecutive_from (a + int (length xs)) ys \<Longrightarrow>
   consecutive_from a (xs @ ys)"
proof (induction xs arbitrary: a)
  case Nil
  then show ?case by simp
next
  case (Cons x xs)
  from Cons.prems(2) have "consecutive_from (a + 1 + int (length xs)) ys"
    by (simp add: add.assoc)
  with Cons.prems(1) Cons.IH[of "a + 1"] show ?case by simp
qed

lemma consecutive_from_upt:
  "consecutive_from a xs \<Longrightarrow> xs = map (\<lambda>j. a + int j) [0 ..< length xs]"
proof (induction xs arbitrary: a)
  case Nil
  then show ?case by simp
next
  case (Cons x xs)
  from Cons.prems have x: "x = a" and r: "consecutive_from (a + 1) xs" by simp_all
  from Cons.IH[OF r] have xs: "xs = map (\<lambda>j. a + 1 + int j) [0 ..< length xs]" .
  have "[0 ..< length (x # xs)] = 0 # map Suc [0 ..< length xs]"
    by (simp add: upt_conv_Cons map_Suc_upt del: upt_Suc)
  then have "map (\<lambda>j. a + int j) [0 ..< length (x # xs)]
           = a # map (\<lambda>j. a + 1 + int j) [0 ..< length xs]"
    by (simp add: comp_def add.assoc del: upt_Suc)
  with x xs show ?case by simp
qed

lemma consecutive_from_sorted: "consecutive_from a xs \<Longrightarrow> sorted_wrt (<) xs \<and> (\<forall>x\<in>set xs. a \<le> x)"
proof (induction xs arbitrary: a)
  case Nil
  then show ?case by simp
next
  case (Cons x xs)
  from Cons.prems have x: "x = a" and r: "consecutive_from (a + 1) xs" by simp_all
  from Cons.IH[OF r] x show ?case by fastforce
qed

text \<open>What \<open>_emitChunk\<close> yields, and what each handler does to the counter and the flag.\<close>

lemma emitChunk_shape:
  "\<exists>c st'. emitChunk now st model d = ([ChunkData c], st')
     \<and> choice_delta c = (if cx_roleSent st then d else d\<lparr>role := Some ''assistant''\<rparr>)
     \<and> cx_roleSent st' \<and> functionCallIndex st' = functionCallIndex st
     \<and> hasToolCallAnnounced st' = hasToolCallAnnounced st"
  by (simp add: emitChunk_def Let_def codex_makeChunk_def)

lemma emitChunk_roles:
  assumes "role d = None"
  shows "roles_step (cx_roleSent st) (role_flags (chunks_of (fst (emitChunk now st model d))))
     (cx_roleSent (snd (emitChunk now st model d)))"
proof -
  obtain c st' where e: "emitChunk now st model d = ([ChunkData c], st')"
    and d: "choice_delta c = (if cx_roleSent st then d else d\<lparr>role := Some ''assistant''\<rparr>)"
    and r: "cx_roleSent st'"
    using emitChunk_shape[of now st model d] by blast
  show ?thesis
  proof (cases "cx_roleSent st")
    case True
    with e d r assms show ?thesis by (simp add: roles_step_def role_flags_def)
  next
    case False
    have "d\<lparr>role := Some ''assistant''\<rparr> \<noteq> empty_delta"
    proof
      assume "d\<lparr>role := Some ''assistant''\<rparr> = empty_delta"
      then have "role (d\<lparr>role := Some ''assistant''\<rparr>) = role (empty_delta :: codex_tool_call delta)"
        by simp
      then show False by (simp add: empty_delta_def)
    qed
    with False e d r show ?thesis by (simp add: roles_step_def role_flags_def)
  qed
qed

lemma emitChunk_announced:
  "announced_slots (fst (emitChunk now st model d))
   = (case tool_calls d of None \<Rightarrow> []
      | Some tcs \<Rightarrow> map ctc_index (filter (\<lambda>tc. ctc_type tc = Some ''function'') tcs))"
  using emitChunk_shape[of now st model d]
  by (auto simp: announced_slots_def announced_def)

lemma step_ok_silent:
  "functionCallIndex st' = functionCallIndex st \<Longrightarrow> cx_roleSent st' = cx_roleSent st \<Longrightarrow>
   step_ok False st ([], st')"
  by (simp add: step_ok_def announced_slots_def role_flags_def roles_step_Nil)

lemma step_ok_emit:
  assumes "role d = None"
    and "(case tool_calls d of None \<Rightarrow> []
          | Some tcs \<Rightarrow> map ctc_index (filter (\<lambda>tc. ctc_type tc = Some ''function'') tcs))
         = (if assigns then [functionCallIndex st + 1] else [])"
    and "functionCallIndex st1 = functionCallIndex st + (if assigns then 1 else 0)"
    and "cx_roleSent st1 = cx_roleSent st"
  shows "step_ok assigns st (emitChunk now st1 model d)"
proof -
  have "functionCallIndex (snd (emitChunk now st1 model d)) = functionCallIndex st1"
    using emitChunk_shape[of now st1 model d] by auto
  with assms emitChunk_roles[OF assms(1), of st1 now model] emitChunk_announced[of now st1 model d]
  show ?thesis by (simp add: step_ok_def)
qed

lemma step_ok_created:
  "step_ok False st (handleResponseCreated date_ms now e st)"
  by (simp add: handleResponseCreated_def Let_def step_ok_silent)

lemma step_ok_added:
  "step_ok (is_function_call (ev_item e)) st (handleOutputItemAdded rmap now e model st)"
proof (cases "ev_item e")
  case None
  then show ?thesis by (simp add: handleOutputItemAdded_def is_function_call_def step_ok_silent)
next
  case (Some item)
  show ?thesis
  proof (cases "item_type item = Some ''function_call''")
    case False
    with Some show ?thesis
      by (simp add: handleOutputItemAdded_def is_function_call_def step_ok_silent)
  next
    case True
    with Some show ?thesis
      by (simp add: handleOutputItemAdded_def is_function_call_def Let_def)
         (rule step_ok_emit; simp add: empty_delta_def)
  qed
qed

lemma step_ok_args_delta:
  "step_ok False st (handleArgumentsDelta now e model st)"
  by (simp add: handleArgumentsDelta_def Let_def)
     (rule step_ok_emit; simp add: empty_delta_def)

lemma step_ok_args_done:
  "step_ok False st (handleArgumentsDone now e model st)"
proof (cases "hasReceivedArgumentsDelta st")
  case True
  then show ?thesis by (simp add: handleArgumentsDone_def step_ok_silent)
next
  case False
  then show ?thesis
    by (simp add: handleArgumentsDone_def)
       (rule step_ok_emit; simp add: empty_delta_def)
qed

lemma step_ok_item_done:
  "step_ok (is_function_call (ev_item e) \<and> \<not> hasToolCallAnnounced st) st
     (handleOutputItemDone rmap now e model st)"
proof (cases "ev_item e")
  case None
  then show ?thesis by (simp add: handleOutputItemDone_def is_function_call_def step_ok_silent)
next
  case (Some item)
  show ?thesis
  proof (cases "item_type item = Some ''function_call''")
    case False
    with Some show ?thesis
      by (simp add: handleOutputItemDone_def is_function_call_def step_ok_silent)
  next
    case True
    show ?thesis
    proof (cases "hasToolCallAnnounced st")
      case a: True
      with True Some show ?thesis
        by (simp add: handleOutputItemDone_def is_function_call_def step_ok_silent)
    next
      case na: False
      with True Some show ?thesis
        by (simp add: handleOutputItemDone_def is_function_call_def Let_def)
           (rule step_ok_emit; simp add: empty_delta_def)
    qed
  qed
qed

lemma terminal_chunk_plain:
  "\<exists>c. terminal_chunk now resp model st = ChunkData c \<and> choice_delta c = empty_delta"
  by (simp add: terminal_chunk_def codex_makeChunk_def)

lemma step_ok_terminal:
  "step_ok False st ([terminal_chunk now resp model st], st)"
  using terminal_chunk_plain[of now resp model st]
  by (auto simp: step_ok_def announced_slots_def announced_def role_flags_def roles_step_Nil
      empty_delta_def)

lemma step_ok_completed:
  "step_ok False st (handleResponseCompleted now e model st)"
  by (simp add: handleResponseCompleted_def step_ok_terminal)

lemma step_ok_error:
  "step_ok False st (handleResponseError now e model st)"
proof (cases "resp_status (response_of e) = Some ''failed''")
  case True
  then show ?thesis
    by (simp add: handleResponseError_def Let_def step_ok_def announced_slots_def role_flags_def
        roles_step_Nil)
next
  case False
  then show ?thesis
    by (simp add: handleResponseError_def Let_def step_ok_terminal)
qed

lemma step_ok_stream_error:
  "step_ok False st (handleStreamError e st)"
  by (simp add: handleStreamError_def step_ok_def announced_slots_def role_flags_def
      roles_step_Nil)

lemma step_ok_text:
  "step_ok False st (emitChunk now st model (empty_delta\<lparr>content := x\<rparr>))"
  "step_ok False st (emitChunk now st model (empty_delta\<lparr>reasoning_content := x\<rparr>))"
  by (rule step_ok_emit; simp add: empty_delta_def)+

lemma codex_step:
  "step_ok (assigns_slot e st) st (codex_convertStreamChunk rmap date_ms now e model st)"
proof -
  consider (none) "\<not> truthy (ev_type e)"
    | (created) "ev_type e = Some ''response.created''"
    | (rdelta) "ev_type e = Some ''response.reasoning_summary_text.delta''"
    | (rdone) "ev_type e = Some ''response.reasoning_summary_text.done''"
    | (tdelta) "ev_type e = Some ''response.output_text.delta''"
    | (added) "ev_type e = Some ''response.output_item.added''"
    | (adelta) "ev_type e = Some ''response.function_call_arguments.delta''"
    | (adone) "ev_type e = Some ''response.function_call_arguments.done''"
    | (idone) "ev_type e = Some ''response.output_item.done''"
    | (completed) "ev_type e = Some ''response.completed''"
    | (failed) "ev_type e = Some ''response.failed''"
    | (incomplete) "ev_type e = Some ''response.incomplete''"
    | (error) "ev_type e = Some ''error''"
    | (other) "truthy (ev_type e)" "ev_type e \<notin> {Some ''response.created'',
         Some ''response.reasoning_summary_text.delta'',
         Some ''response.reasoning_summary_text.done'', Some ''response.output_text.delta'',
         Some ''response.output_item.added'', Some ''response.function_call_arguments.delta'',
         Some ''response.function_call_arguments.done'', Some ''response.output_item.done'',
         Some ''response.completed'', Some ''response.failed'', Some ''response.incomplete'',
         Some ''error''}"
    by blast
  then show ?thesis
  proof cases
    case none
    then have "ev_type e \<noteq> Some ''response.output_item.added''"
      "ev_type e \<noteq> Some ''response.output_item.done''" by (auto simp: truthy_def)
    with none show ?thesis
      by (simp add: codex_convertStreamChunk_def assigns_slot_def step_ok_silent)
  next
    case created
    then show ?thesis
      by (simp add: codex_convertStreamChunk_def assigns_slot_def truthy_def step_ok_created)
  next
    case rdelta
    then show ?thesis
      by (simp add: codex_convertStreamChunk_def assigns_slot_def truthy_def step_ok_text)
  next
    case rdone
    then show ?thesis
      by (simp add: codex_convertStreamChunk_def assigns_slot_def truthy_def step_ok_silent)
  next
    case tdelta
    then show ?thesis
      by (simp add: codex_convertStreamChunk_def assigns_slot_def truthy_def step_ok_text)
  next
    case added
    then show ?thesis
      using step_ok_added[of e st rmap now model]
      by (simp add: codex_convertStreamChunk_def assigns_slot_def truthy_def)
  next
    case adelta
    then show ?thesis
      by (simp add: codex_convertStreamChunk_def assigns_slot_def truthy_def step_ok_args_delta)
  next
    case adone
    then show ?thesis
      by (simp add: codex_convertStreamChunk_def assigns_slot_def truthy_def step_ok_args_done)
  next
    case idone
    then show ?thesis
      using step_ok_item_done[of e st rmap now model]
      by (simp add: codex_convertStreamChunk_def assigns_slot_def truthy_def)
  next
    case completed
    then show ?thesis
      by (simp add: codex_convertStreamChunk_def assigns_slot_def truthy_def step_ok_completed)
  next
    case failed
    then show ?thesis
      by (simp add: codex_convertStreamChunk_def assigns_slot_def truthy_def step_ok_error)
  next
    case incomplete
    then show ?thesis
      by (simp add: codex_convertStreamChunk_def assigns_slot_def truthy_def step_ok_error)
  next
    case error
    then show ?thesis
      by (simp add: codex_convertStreamChunk_def assigns_slot_def truthy_def step_ok_stream_error)
  next
    case other
    then show ?thesis
      by (simp add: codex_convertStreamChunk_def assigns_slot_def step_ok_silent)
  qed
qed

lemma codex_events_ok:
  "consecutive_from (functionCallIndex st + 1)
     (announced_slots (fst (codex_events rmap date_ms model es st)))
   \<and> functionCallIndex (snd (codex_events rmap date_ms model es st))
       = functionCallIndex st
         + int (length (announced_slots (fst (codex_events rmap date_ms model es st))))
   \<and> roles_step (cx_roleSent st)
       (role_flags (chunks_of (fst (codex_events rmap date_ms model es st))))
       (cx_roleSent (snd (codex_events rmap date_ms model es st)))"
proof (induction es arbitrary: st)
  case Nil
  show ?case by (simp add: announced_slots_def role_flags_def roles_step_Nil)
next
  case (Cons x es)
  obtain now e where x: "x = (now, e)" by (cases x)
  obtain r1 st1 where c: "codex_convertStreamChunk rmap date_ms now e model st = (r1, st1)"
    by (cases "codex_convertStreamChunk rmap date_ms now e model st")
  obtain r2 st2 where cs: "codex_events rmap date_ms model es st1 = (r2, st2)"
    by (cases "codex_events rmap date_ms model es st1")
  from codex_step[of e st rmap date_ms now model] c
  have s1: "announced_slots r1 = (if assigns_slot e st then [functionCallIndex st + 1] else [])"
    and i1: "functionCallIndex st1 = functionCallIndex st + (if assigns_slot e st then 1 else 0)"
    and ro1: "roles_step (cx_roleSent st) (role_flags (chunks_of r1)) (cx_roleSent st1)"
    by (simp_all add: step_ok_def)
  from Cons.IH[of st1] cs
  have s2: "consecutive_from (functionCallIndex st1 + 1) (announced_slots r2)"
    and i2: "functionCallIndex st2 = functionCallIndex st1 + int (length (announced_slots r2))"
    and ro2: "roles_step (cx_roleSent st1) (role_flags (chunks_of r2)) (cx_roleSent st2)"
    by simp_all
  have a: "consecutive_from (functionCallIndex st + 1) (announced_slots r1 @ announced_slots r2)"
    using s1 s2 i1 by (cases "assigns_slot e st") simp_all
  have b: "functionCallIndex st2
      = functionCallIndex st + int (length (announced_slots r1 @ announced_slots r2))"
    using s1 i1 i2 by (cases "assigns_slot e st") simp_all
  from roles_step_append[OF ro1 ro2] a b x c cs show ?case
    by (simp add: announced_slots_append chunks_of_append role_flags_append)
qed

lemma convert_ignores_output_index:
  "codex_convertStreamChunk rmap date_ms now (e\<lparr>output_index := x\<rparr>) model st
   = codex_convertStreamChunk rmap date_ms now e model st"
  by (simp add: codex_convertStreamChunk_def handleResponseCreated_def
      handleOutputItemAdded_def handleArgumentsDelta_def handleArgumentsDone_def
      handleOutputItemDone_def handleResponseCompleted_def handleResponseError_def
      handleStreamError_def response_of_def)

lemma events_ignore_output_index:
  "codex_events rmap date_ms model (map (\<lambda>(now, e). (now, e\<lparr>output_index := g now e\<rparr>)) es) st
   = codex_events rmap date_ms model es st"
  by (induction es arbitrary: st) (auto simp: convert_ignores_output_index)

text \<open>
  Claim C7, as amended. The slot counter starts at \<open>-1\<close>. An event leaves it as it is or
  adds one to it, and adds one exactly when it is an \<open>output_item.added\<close> event for a
  function call, or an \<open>output_item.done\<close> event for a function call met while no
  announcement is pending; the chunk emitted then announces the new value. So over any
  stream of events through one fresh state the announced slots are \<open>0, 1, 2, ...\<close> in the
  order of the events that take one, strictly increasing, and the counter ends at the
  last of them. The index the backend puts on its events changes nothing.
\<close>

theorem slot_counter_encounter_order:
  "functionCallIndex codex_createStreamState = - 1
   \<and> functionCallIndex (snd (codex_convertStreamChunk rmap date_ms now e model st))
       = functionCallIndex st + (if assigns_slot e st then 1 else 0)
   \<and> announced_slots (fst (codex_convertStreamChunk rmap date_ms now e model st))
       = (if assigns_slot e st then [functionCallIndex st + 1] else [])
   \<and> announced_slots (fst (codex_events rmap date_ms model es codex_createStreamState))
       = map int [0 ..< length (announced_slots
                   (fst (codex_events rmap date_ms model es codex_createStreamState)))]
   \<and> sorted_wrt (<)
       (announced_slots (fst (codex_events rmap date_ms model es codex_createStreamState)))
   \<and> functionCallIndex (snd (codex_events rmap date_ms model es codex_createStreamState))
       = int (length (announced_slots
                (fst (codex_events rmap date_ms model es codex_createStreamState)))) - 1
   \<and> codex_events rmap date_ms model
         (map (\<lambda>(now, e). (now, e\<lparr>output_index := g now e\<rparr>)) es) codex_createStreamState
       = codex_events rmap date_ms model es codex_createStreamState"
proof -
  let ?out = "fst (codex_events rmap date_ms model es codex_createStreamState)"
  have i0: "functionCallIndex codex_createStreamState = - 1"
    by (simp add: codex_createStreamState_def)
  from codex_step[of e st rmap date_ms now model]
  have st: "functionCallIndex (snd (codex_convertStreamChunk rmap date_ms now e model st))
       = functionCallIndex st + (if assigns_slot e st then 1 else 0)"
    and an: "announced_slots (fst (codex_convertStreamChunk rmap date_ms now e model st))
       = (if assigns_slot e st then [functionCallIndex st + 1] else [])"
    by (simp_all add: step_ok_def)
  from codex_events_ok[of codex_createStreamState rmap date_ms model es] i0
  have c: "consecutive_from 0 (announced_slots ?out)"
    and f: "functionCallIndex (snd (codex_events rmap date_ms model es codex_createStreamState))
       = int (length (announced_slots ?out)) - 1"
    by simp_all
  from consecutive_from_upt[OF c]
  have u: "announced_slots ?out = map int [0 ..< length (announced_slots ?out)]" by simp
  from consecutive_from_sorted[OF c] have s: "sorted_wrt (<) (announced_slots ?out)" by simp
  from i0 st an u s f events_ignore_output_index[of rmap date_ms model g es codex_createStreamState]
  show ?thesis by blast
qed

theorem slot_counter_encounter_order_witness:
  "announced_slots (fst (codex_events [] no_date ''gpt-5'' sample_events codex_createStreamState)) = [0, 1]
   \<and> sorted_wrt (<) (announced_slots (fst (codex_events [] no_date ''gpt-5'' sample_events codex_createStreamState)))
   \<and> functionCallIndex (snd (codex_events [] no_date ''gpt-5'' sample_events codex_createStreamState)) = 1"
proof -
  have e: "announced_slots (fst (codex_events [] no_date ''gpt-5'' sample_events codex_createStreamState)) = [0, 1]"
    by code_simp
  from slot_counter_encounter_order[of "[]" no_date 0 "event ''x''" "''gpt-5''"
      codex_createStreamState sample_events "\<lambda>now e. None"] e
  show ?thesis by simp
qed

text \<open>
  Claim C7 as stated fails where it ties the fallback to a call that no \<open>added\<close> event
  announced. The converter keeps one pending flag, not the call it announced: when two
  calls are announced before either is done, the first \<open>done\<close> event clears the flag and
  the second takes a new slot, so the second call is announced at slot \<open>1\<close> and again at
  slot \<open>2\<close>, and the third call of the stream gets slot \<open>3\<close>.
\<close>

theorem slot_counter_encounter_order_counterexample:
  "announced_calls
     (fst (codex_events [] no_date ''gpt-5'' interleaved_events codex_createStreamState))
   = [(0, Some ''call_a''), (1, Some ''call_b''), (2, Some ''call_b''), (3, Some ''call_c'')]"
  by code_simp

text \<open>
  Claim C8. Over any stream through one fresh state, in the Gemini converter and in the
  Codex converter, the first chunk that carries a delta has the role \<open>assistant\<close>, no
  later one has a role, and so at most one chunk of the stream has a role.
\<close>

theorem role_announced_once:
  "first_only (role_flags (fst (convert_frames date_ms model fs (gemini_createStreamState n0))))
   \<and> role_count (fst (convert_frames date_ms model fs (gemini_createStreamState n0))) \<le> 1
   \<and> first_only (role_flags (chunks_of
        (fst (codex_events rmap date_ms' model' es codex_createStreamState))))
   \<and> role_count (chunks_of
        (fst (codex_events rmap date_ms' model' es codex_createStreamState))) \<le> 1"
proof -
  have "cx_roleSent codex_createStreamState = False"
    by (simp add: codex_createStreamState_def)
  with codex_events_ok[of codex_createStreamState rmap date_ms' model' es]
  have "roles_step False (role_flags (chunks_of
        (fst (codex_events rmap date_ms' model' es codex_createStreamState))))
        (cx_roleSent (snd (codex_events rmap date_ms' model' es codex_createStreamState)))"
    by simp
  then have fo: "first_only (role_flags (chunks_of
        (fst (codex_events rmap date_ms' model' es codex_createStreamState))))"
    by (rule roles_step_first_only)
  from first_only_count[OF fo]
  have "role_count (chunks_of
        (fst (codex_events rmap date_ms' model' es codex_createStreamState))) \<le> 1"
    by (simp only: role_count_flags)
  with fo gemini_roles[of date_ms model fs n0] show ?thesis by blast
qed

theorem role_announced_once_witness:
  "role_flags (fst (convert_frames no_date ''gemini-pro'' [(1, hi_frame), (2, hi_frame), (3, stop_frame)] (gemini_createStreamState 0))) = [Some ''assistant'', None]
   \<and> first_only (role_flags (fst (convert_frames no_date ''gemini-pro'' [(1, hi_frame), (2, hi_frame), (3, stop_frame)] (gemini_createStreamState 0))))
   \<and> role_count (fst (convert_frames no_date ''gemini-pro'' [(1, hi_frame), (2, hi_frame), (3, stop_frame)] (gemini_createStreamState 0))) \<le> 1
   \<and> role_flags (chunks_of (fst (codex_events [] no_date ''gpt-5'' sample_events codex_createStreamState))) = [Some ''assistant'', None, None, None]
   \<and> first_only (role_flags (chunks_of (fst (codex_events [] no_date ''gpt-5'' sample_events codex_createStreamState))))
   \<and> role_count (chunks_of (fst (codex_events [] no_date ''gpt-5'' sample_events codex_createStreamState))) \<le> 1"
proof -
  have g: "role_flags (fst (convert_frames no_date ''gemini-pro'' [(1, hi_frame), (2, hi_frame), (3, stop_frame)] (gemini_createStreamState 0))) = [Some ''assistant'', None]"
    by code_simp
  have c: "role_flags (chunks_of (fst (codex_events [] no_date ''gpt-5'' sample_events codex_createStreamState))) = [Some ''assistant'', None, None, None]"
    by code_simp
  from role_announced_once[of no_date "''gemini-pro''"
      "[(1, hi_frame), (2, hi_frame), (3, stop_frame)]" 0 "[]" no_date "''gpt-5''" sample_events]
    g c
  show ?thesis by simp
qed

section \<open>Proofs: the hooks on complete responses\<close>

text \<open>The hook of the OpenAI branch never lets an exception of the conversion out.\<close>

lemma codex_res_json_catches:
  "\<exists>s. codex_res_json statusCode is_response convertResponse d = Inr s"
  by (simp add: codex_res_json_def split: sum.splits)

lemma codex_res_json_falls_back:
  "convertResponse d = Inl e \<Longrightarrow>
   codex_res_json statusCode is_response convertResponse d = Inr (Original d)"
  by (simp add: codex_res_json_def)

text \<open>
  Claim C5 fails on the code for the Gemini branch. With a status below 400 and a
  payload that has candidates, an exception of the conversion leaves the hook of the
  Gemini branch, which has no \<open>try\<close>; the hook of the OpenAI branch catches it and sends
  the payload as it came.
\<close>

theorem gemini_res_json_propagates:
  "gemini_res_json 200 (\<lambda>d. True) (\<lambda>d. Inl e) d = Inl e
   \<and> codex_res_json 200 (\<lambda>d. True) (\<lambda>d. Inl e) d = Inr (Original d)"
  by (simp add: gemini_res_json_def codex_res_json_def)

end
